theory Spec2Isabelle
  imports Main "HOL-Library.Word"
begin

section \<open>The GTM transaction table (gtm\_txn.c)\<close>

text \<open>
  A shallow embedding of the transaction manager of \<^verbatim>\<open>src/gtm/main/gtm_txn.c\<close>.
  The global \<^verbatim>\<open>GTMTransactions\<close> and the file-level global \<^verbatim>\<open>ControlXid\<close> are one
  record that every operation takes and returns. A pointer to a slot of
  \<^verbatim>\<open>gt_transactions_array\<close> is the index of that slot, a \<^verbatim>\<open>NULL\<close> pointer is \<open>None\<close>.
  Locks, log lines and memory contexts have no counterpart: the model is sequential.
  \<^verbatim>\<open>ereport(ERROR, ...)\<close> leaves the function at once and is a value \<open>Inl (e, s)\<close>,
  with \<open>s\<close> the table as it stands when the error is raised. A read past the slot array,
  a write past the end of a buffer and a write through \<^verbatim>\<open>NULL\<close> are values of the same
  kind.
\<close>

subsection \<open>Constants and identifiers\<close>

type_synonym GlobalTransactionId = "32 word"
type_synonym GTM_TransactionHandle = int

text \<open>
  The invalid GXID 0, the first normal GXID 3 and the invalid handle \<open>- 1\<close> are the
  values the spec and the initialisation of the table give.
\<close>

abbreviation InvalidGlobalTransactionId :: GlobalTransactionId where
  "InvalidGlobalTransactionId \<equiv> 0"

abbreviation FirstNormalGlobalTransactionId :: GlobalTransactionId where
  "FirstNormalGlobalTransactionId \<equiv> 3"

abbreviation InvalidTransactionHandle :: GTM_TransactionHandle where
  "InvalidTransactionHandle \<equiv> - 1"

text \<open>
  Modelled from the spec: \<^verbatim>\<open>GlobalTransactionIdIsValid\<close> of the missing header
  \<^verbatim>\<open>gtm_gxid.h\<close>. The \<open>gxid\<close> of a slot is an "assigned GXID, or invalid"; the invalid GXID is 0.
\<close>

definition GlobalTransactionIdIsValid :: "GlobalTransactionId \<Rightarrow> bool" where
  "GlobalTransactionIdIsValid xid = (xid \<noteq> InvalidGlobalTransactionId)"

text \<open>
  Modelled from the spec: \<^verbatim>\<open>GlobalTransactionIdIsNormal\<close> of the missing header.
  "\<open>FirstNormalGxid\<close> (a small constant, e.g. 3) is the floor; values below it are
  reserved".
\<close>

definition GlobalTransactionIdIsNormal :: "GlobalTransactionId \<Rightarrow> bool" where
  "GlobalTransactionIdIsNormal xid = (FirstNormalGlobalTransactionId \<le> xid)"

text \<open>
  Modelled from the spec: \<^verbatim>\<open>GlobalTransactionIdFollowsOrEquals\<close>, declared in the
  missing header. Comparison "uses modular follows/precedes semantics (the 32-bit
  signed-difference convention)".
\<close>

definition GlobalTransactionIdFollowsOrEquals ::
  "GlobalTransactionId \<Rightarrow> GlobalTransactionId \<Rightarrow> bool" where
  "GlobalTransactionIdFollowsOrEquals id1 id2 = (0 \<le> sint (id1 - id2))"

text \<open>
  Modelled from the spec: \<^verbatim>\<open>GlobalTransactionIdPrecedesOrEquals\<close>, declared in the
  missing header; the same convention.
\<close>

definition GlobalTransactionIdPrecedesOrEquals ::
  "GlobalTransactionId \<Rightarrow> GlobalTransactionId \<Rightarrow> bool" where
  "GlobalTransactionIdPrecedesOrEquals id1 id2 = (sint (id1 - id2) \<le> 0)"

text \<open>
  Modelled from the spec: the macro \<^verbatim>\<open>GlobalTransactionIdAdvance\<close> of the missing
  header. "Advance \<open>next_gxid\<close> by one, skipping the reserved low range on wrap".
\<close>

definition GlobalTransactionIdAdvance :: "GlobalTransactionId \<Rightarrow> GlobalTransactionId" where
  "GlobalTransactionIdAdvance dest =
     (if dest + 1 < FirstNormalGlobalTransactionId then FirstNormalGlobalTransactionId
      else dest + 1)"

subsection \<open>Data model\<close>

text \<open>
  The states of a transaction and of the manager, and the status values, by the names
  the code uses; \<open>GTM_TXN_IN_PROGRESS\<close> is the state the spec calls \<open>Running\<close>, which
  no function of the file assigns.
\<close>

datatype GTM_TransactionStates =
    GTM_TXN_STARTING
  | GTM_TXN_IN_PROGRESS
  | GTM_TXN_PREPARE_IN_PROGRESS
  | GTM_TXN_PREPARED
  | GTM_TXN_COMMIT_IN_PROGRESS
  | GTM_TXN_ABORT_IN_PROGRESS
  | GTM_TXN_ABORTED

datatype GTM_States = GTM_STARTING | GTM_RUNNING | GTM_SHUTTING_DOWN

datatype status = STATUS_OK | STATUS_ERROR | STATUS_DELAYED

datatype gtm_error =
    CapacityExhausted
  | StandbyReadOnly
  | Shutdown
  | WrapAroundStop
  | ArrayOutOfBounds
  | NullPointerDereference
  | BufferOverflow
  | AssertionFailed

text \<open>The calls into the sequence subsystem made while a slot is cleaned.\<close>

datatype seq_call =
    GTM_SeqRemoveCreated nat
  | GTM_SeqRestoreDropped nat
  | GTM_SeqRestoreAltered nat
  | GTM_SeqRemoveDropped nat
  | GTM_SeqRemoveAltered nat

record GTM_TransactionInfo =
  gti_handle :: GTM_TransactionHandle
  gti_in_use :: bool
  gti_gxid :: GlobalTransactionId
  gti_state :: GTM_TransactionStates
  gti_xmin :: GlobalTransactionId
  gti_isolevel :: nat
  gti_readonly :: bool
  gti_client_id :: "32 word"
  gti_proxy_client_id :: int
  gti_global_session_id :: string
  gti_gid :: "string option"
  nodestring :: "string option"
  gti_vacuum :: bool
  gti_snapshot_set :: bool
  gti_created_seqs :: "nat list"
  gti_dropped_seqs :: "nat list"
  gti_altered_seqs :: "nat list"

text \<open>
  The header that declares the slot and fixes \<^verbatim>\<open>GTM_MAX_GLOBAL_TRANSACTIONS\<close>,
  \<^verbatim>\<open>CONTROL_INTERVAL\<close>, \<^verbatim>\<open>GTM_MAX_SESSION_ID_LEN\<close>, \<^verbatim>\<open>GTM_MAX_GID_LEN\<close> and
  \<^verbatim>\<open>GTM_MAX_NODESTRING_LEN\<close> is not among the sources, so the five constants are
  parameters of the model. So is what the declaration of the slot puts behind the array
  \<^verbatim>\<open>gti_global_session_id\<close>: \<open>after_session_id\<close> gives, for a slot, the characters
  that lie in memory after the last element of that array, up to the first \<^verbatim>\<open>NUL\<close>.
\<close>

record gtm_constants =
  GTM_MAX_GLOBAL_TRANSACTIONS :: nat
  CONTROL_INTERVAL :: "32 word"
  GTM_MAX_SESSION_ID_LEN :: nat
  GTM_MAX_GID_LEN :: nat
  GTM_MAX_NODESTRING_LEN :: nat
  after_session_id :: "GTM_TransactionInfo \<Rightarrow> string"

text \<open>
  \<open>ControlXid\<close> is the global of the same name. \<open>control_saves\<close> lists the values
  handed to \<^verbatim>\<open>SaveControlInfo()\<close>, \<open>need_backup\<close> is set by \<^verbatim>\<open>GTM_SetNeedBackup()\<close>
  and \<open>seq_calls\<close> lists the calls into the sequence subsystem, oldest first.
\<close>

record GTM_Transactions =
  gt_gtm_state :: GTM_States
  gt_nextXid :: GlobalTransactionId
  gt_backedUpXid :: GlobalTransactionId
  gt_oldestXid :: GlobalTransactionId
  gt_xidVacLimit :: GlobalTransactionId
  gt_xidWarnLimit :: GlobalTransactionId
  gt_xidStopLimit :: GlobalTransactionId
  gt_xidWrapLimit :: GlobalTransactionId
  gt_latestCompletedXid :: GlobalTransactionId
  gt_recent_global_xmin :: GlobalTransactionId
  gt_lastslot :: int
  gt_transactions_array :: "GTM_TransactionInfo list"
  gt_open_transactions :: "nat list"
  ControlXid :: GlobalTransactionId
  control_saves :: "GlobalTransactionId list"
  need_backup :: bool
  seq_calls :: "seq_call list"

type_synonym 'a result = "(gtm_error \<times> GTM_Transactions) + ('a \<times> GTM_Transactions)"

text \<open>A slot after \<^verbatim>\<open>memset(..., 0, ...)\<close>.\<close>

definition zero_txninfo :: GTM_TransactionInfo where
  "zero_txninfo =
     \<lparr> gti_handle = 0, gti_in_use = False, gti_gxid = 0, gti_state = GTM_TXN_STARTING,
       gti_xmin = 0, gti_isolevel = 0, gti_readonly = False, gti_client_id = 0,
       gti_proxy_client_id = 0, gti_global_session_id = [], gti_gid = None,
       nodestring = None, gti_vacuum = False, gti_snapshot_set = False,
       gti_created_seqs = [], gti_dropped_seqs = [], gti_altered_seqs = [] \<rparr>"

definition GTM_InitTxnManager :: "gtm_constants \<Rightarrow> GTM_Transactions" where
  "GTM_InitTxnManager c =
     \<lparr> gt_gtm_state = GTM_STARTING,
       gt_nextXid = FirstNormalGlobalTransactionId,
       gt_backedUpXid = 0,
       gt_oldestXid = FirstNormalGlobalTransactionId,
       gt_xidVacLimit = InvalidGlobalTransactionId,
       gt_xidWarnLimit = InvalidGlobalTransactionId,
       gt_xidStopLimit = InvalidGlobalTransactionId,
       gt_xidWrapLimit = InvalidGlobalTransactionId,
       gt_latestCompletedXid = FirstNormalGlobalTransactionId,
       gt_recent_global_xmin = FirstNormalGlobalTransactionId,
       gt_lastslot = - 1,
       gt_transactions_array = replicate (GTM_MAX_GLOBAL_TRANSACTIONS c) zero_txninfo,
       gt_open_transactions = [],
       ControlXid = FirstNormalGlobalTransactionId,
       control_saves = [],
       need_backup = False,
       seq_calls = [] \<rparr>"

text \<open>The slot a pointer refers to, and an assignment through the pointer.\<close>

definition slot :: "GTM_Transactions \<Rightarrow> nat \<Rightarrow> GTM_TransactionInfo" where
  "slot s p = gt_transactions_array s ! p"

definition upd_slot ::
  "nat \<Rightarrow> (GTM_TransactionInfo \<Rightarrow> GTM_TransactionInfo) \<Rightarrow> GTM_Transactions \<Rightarrow> GTM_Transactions" where
  "upd_slot p f s =
     s\<lparr>gt_transactions_array := (gt_transactions_array s)[p := f (gt_transactions_array s ! p)]\<rparr>"

subsection \<open>Lookups\<close>

definition GTM_GXIDToHandle_Internal ::
  "GTM_Transactions \<Rightarrow> GlobalTransactionId \<Rightarrow> GTM_TransactionHandle" where
  "GTM_GXIDToHandle_Internal s gxid =
     (if \<not> GlobalTransactionIdIsValid gxid then InvalidTransactionHandle
      else case find (\<lambda>p. gti_gxid (slot s p) = gxid) (gt_open_transactions s) of
             Some p \<Rightarrow> gti_handle (slot s p)
           | None \<Rightarrow> InvalidTransactionHandle)"

text \<open>
  The session id of a slot is an array of \<^verbatim>\<open>GTM_MAX_SESSION_ID_LEN\<close> characters, which
  \<^verbatim>\<open>strncpy\<close> fills. The field \<open>gti_global_session_id\<close> holds the characters before the
  first \<^verbatim>\<open>NUL\<close> of the array; when it has \<^verbatim>\<open>GTM_MAX_SESSION_ID_LEN\<close> of them the array
  holds no \<^verbatim>\<open>NUL\<close>, and \<^verbatim>\<open>strcmp\<close> reads on into what follows the array in the slot.
  \<open>session_id_string\<close> is the string that \<^verbatim>\<open>strcmp\<close> reads from the array.
\<close>

definition session_id_string :: "gtm_constants \<Rightarrow> GTM_TransactionInfo \<Rightarrow> string" where
  "session_id_string c t =
     (if GTM_MAX_SESSION_ID_LEN c \<le> length (gti_global_session_id t)
      then gti_global_session_id t @ after_session_id c t
      else gti_global_session_id t)"

definition GTM_GlobalSessionIDToHandle ::
  "gtm_constants \<Rightarrow> GTM_Transactions \<Rightarrow> string option \<Rightarrow> GTM_TransactionHandle" where
  "GTM_GlobalSessionIDToHandle c s global_sessionid =
     (case global_sessionid of
        None \<Rightarrow> InvalidTransactionHandle
      | Some sid \<Rightarrow>
          if sid = [] then InvalidTransactionHandle
          else case find (\<lambda>p. session_id_string c (slot s p) = sid) (gt_open_transactions s) of
                 Some p \<Rightarrow> gti_handle (slot s p)
               | None \<Rightarrow> InvalidTransactionHandle)"

definition GTM_IsGXIDInProgress :: "GTM_Transactions \<Rightarrow> GlobalTransactionId \<Rightarrow> bool" where
  "GTM_IsGXIDInProgress s gxid =
     (GTM_GXIDToHandle_Internal s gxid \<noteq> InvalidTransactionHandle)"

definition GTM_GIDToHandle :: "GTM_Transactions \<Rightarrow> string \<Rightarrow> GTM_TransactionHandle" where
  "GTM_GIDToHandle s gid =
     (case find (\<lambda>p. gti_gid (slot s p) = Some gid) (gt_open_transactions s) of
        Some p \<Rightarrow> gti_handle (slot s p)
      | None \<Rightarrow> InvalidTransactionHandle)"

text \<open>
  The range test lets the handle \<^verbatim>\<open>GTM_MAX_GLOBAL_TRANSACTIONS\<close> through; the array
  read that follows is then one past the last slot.
\<close>

definition GTM_HandleToTransactionInfo ::
  "gtm_constants \<Rightarrow> GTM_Transactions \<Rightarrow> GTM_TransactionHandle \<Rightarrow> gtm_error + nat option" where
  "GTM_HandleToTransactionInfo c s handle =
     (if handle < 0 \<or> handle > int (GTM_MAX_GLOBAL_TRANSACTIONS c) then Inr None
      else if length (gt_transactions_array s) \<le> nat handle then Inl ArrayOutOfBounds
      else if \<not> gti_in_use (slot s (nat handle)) then Inr None
      else Inr (Some (nat handle)))"

subsection \<open>Removing transactions\<close>

text \<open>
  The update of \<^verbatim>\<open>gt_latestCompletedXid\<close> that both removal loops make for the slot
  they remove.
\<close>

definition note_completed :: "GlobalTransactionId \<Rightarrow> GTM_Transactions \<Rightarrow> GTM_Transactions" where
  "note_completed gxid s =
     (if GlobalTransactionIdIsNormal gxid \<and>
         GlobalTransactionIdFollowsOrEquals gxid (gt_latestCompletedXid s)
      then s\<lparr>gt_latestCompletedXid := gxid\<rparr> else s)"

definition clean_calls :: "GTM_TransactionInfo \<Rightarrow> seq_call list" where
  "clean_calls t =
     (if gti_state t = GTM_TXN_ABORT_IN_PROGRESS then
        map GTM_SeqRemoveCreated (gti_created_seqs t) @
        map GTM_SeqRestoreDropped (gti_dropped_seqs t) @
        map GTM_SeqRestoreAltered (gti_altered_seqs t)
      else if gti_state t = GTM_TXN_COMMIT_IN_PROGRESS then
        map GTM_SeqRemoveDropped (gti_dropped_seqs t) @
        map GTM_SeqRemoveAltered (gti_altered_seqs t)
      else [])"

definition clean_slot :: "GTM_TransactionInfo \<Rightarrow> GTM_TransactionInfo" where
  "clean_slot t =
     t\<lparr> gti_dropped_seqs := [], gti_created_seqs := [], gti_altered_seqs := [],
        gti_state := GTM_TXN_ABORTED, gti_in_use := False, gti_snapshot_set := False,
        gti_gid := None, nodestring := None \<rparr>"

definition GTM_TransactionInfo_Clean :: "nat \<Rightarrow> GTM_Transactions \<Rightarrow> GTM_Transactions" where
  "GTM_TransactionInfo_Clean p s =
     upd_slot p clean_slot (s\<lparr>seq_calls := seq_calls s @ clean_calls (slot s p)\<rparr>)"

text \<open>\<^verbatim>\<open>gtm_list_delete\<close> drops the first cell that holds the pointer, if there is one.\<close>

fun GTM_RemoveTransInfoMulti :: "nat option list \<Rightarrow> GTM_Transactions \<Rightarrow> GTM_Transactions" where
  "GTM_RemoveTransInfoMulti [] s = s"
| "GTM_RemoveTransInfoMulti (None # ps) s = GTM_RemoveTransInfoMulti ps s"
| "GTM_RemoveTransInfoMulti (Some p # ps) s =
     GTM_RemoveTransInfoMulti ps
       (GTM_TransactionInfo_Clean p
         (note_completed (gti_gxid (slot s p))
           (s\<lparr>gt_open_transactions := remove1 p (gt_open_transactions s)\<rparr>)))"

text \<open>
  The test \<^verbatim>\<open>GTM_RemoveAllTransInfos\<close> makes on a cell of the open list. The macro
  \<^verbatim>\<open>GTM_CLIENT_ID_EQ\<close> of the missing header is equality of the two identifiers
  (the spec: the client id "matches").
\<close>

definition reap_match :: "32 word \<Rightarrow> int \<Rightarrow> GTM_TransactionInfo \<Rightarrow> bool" where
  "reap_match client_id backend_id t =
     (gti_in_use t \<and>
      gti_state t \<noteq> GTM_TXN_PREPARED \<and>
      gti_state t \<noteq> GTM_TXN_PREPARE_IN_PROGRESS \<and>
      gti_client_id t = client_id \<and>
      (gti_proxy_client_id t = backend_id \<or> backend_id = - 1))"

text \<open>
  The walk over the open list: \<open>kept\<close> are the cells before \<^verbatim>\<open>cell\<close> (the last of
  them is \<^verbatim>\<open>prev\<close>), the list argument is \<^verbatim>\<open>cell\<close> and what follows it.
\<close>

fun reap_walk ::
  "32 word \<Rightarrow> int \<Rightarrow> nat list \<Rightarrow> nat list \<Rightarrow> GTM_Transactions \<Rightarrow> GTM_Transactions" where
  "reap_walk client_id backend_id kept [] s = s"
| "reap_walk client_id backend_id kept (p # cells) s =
     (if reap_match client_id backend_id (slot s p) then
        reap_walk client_id backend_id kept cells
          (GTM_TransactionInfo_Clean p
            (note_completed (gti_gxid (slot s p))
              (s\<lparr>gt_open_transactions := kept @ cells\<rparr>)))
      else reap_walk client_id backend_id (kept @ [p]) cells s)"

definition GTM_RemoveAllTransInfos :: "32 word \<Rightarrow> int \<Rightarrow> GTM_Transactions \<Rightarrow> GTM_Transactions" where
  "GTM_RemoveAllTransInfos client_id backend_id s =
     reap_walk client_id backend_id [] (gt_open_transactions s) s"

subsection \<open>Assigning GXIDs\<close>

definition SaveControlInfo :: "GTM_Transactions \<Rightarrow> GTM_Transactions" where
  "SaveControlInfo s = s\<lparr>control_saves := control_saves s @ [ControlXid s]\<rparr>"

definition GTM_NeedXidRestoreUpdate :: "GTM_Transactions \<Rightarrow> bool" where
  "GTM_NeedXidRestoreUpdate s =
     GlobalTransactionIdPrecedesOrEquals (gt_backedUpXid s) (gt_nextXid s)"

text \<open>
  The loop of \<^verbatim>\<open>GTM_GetGlobalTransactionIdMulti\<close>. The argument \<open>xid\<close> is the local of
  that name: the GXID assigned last, the invalid GXID while none has been assigned.
  The result lists \<^verbatim>\<open>gxids[]\<close> and \<^verbatim>\<open>new_handles[]\<close>.
\<close>

fun assign_gxids ::
  "gtm_constants \<Rightarrow> GTM_TransactionHandle list \<Rightarrow> GlobalTransactionId \<Rightarrow> GTM_Transactions \<Rightarrow>
   (GlobalTransactionId \<times> GlobalTransactionId list \<times> GTM_TransactionHandle list) result" where
  "assign_gxids c [] xid s = Inr ((xid, [], []), s)"
| "assign_gxids c (h # hs) xid s =
     (case GTM_HandleToTransactionInfo c s h of
        Inl e \<Rightarrow> Inl (e, s)
      | Inr None \<Rightarrow> Inl (NullPointerDereference, s)
      | Inr (Some p) \<Rightarrow>
          if GlobalTransactionIdIsValid (gti_gxid (slot s p)) then
            (case assign_gxids c hs xid s of
               Inl x \<Rightarrow> Inl x
             | Inr ((xid', gxids, new_handles), s') \<Rightarrow>
                 Inr ((xid', gti_gxid (slot s p) # gxids, new_handles), s'))
          else
            (let x = gt_nextXid s in
             if GlobalTransactionIdFollowsOrEquals x (gt_xidVacLimit s) \<and>
                GlobalTransactionIdIsValid (gt_xidVacLimit s) \<and>
                GlobalTransactionIdFollowsOrEquals x (gt_xidStopLimit s)
             then Inl (WrapAroundStop, s)
             else
               (case assign_gxids c hs x
                       (upd_slot p (\<lambda>t. t\<lparr>gti_gxid := x\<rparr>)
                          (s\<lparr>gt_nextXid := GlobalTransactionIdAdvance (gt_nextXid s)\<rparr>)) of
                  Inl e \<Rightarrow> Inl e
                | Inr ((xid', gxids, new_handles), s') \<Rightarrow>
                    Inr ((xid', x # gxids, gti_handle (slot s p) # new_handles), s'))))"

text \<open>
  The decision both GXID paths take after their loop: whether the control file is to
  be written, and the new \<open>ControlXid\<close>.
\<close>

definition save_control_due :: "gtm_constants \<Rightarrow> GlobalTransactionId \<Rightarrow> GTM_Transactions \<Rightarrow> bool" where
  "save_control_due c xid s =
     (GlobalTransactionIdIsValid xid \<and>
      (xid - ControlXid s > CONTROL_INTERVAL c \<or> xid < ControlXid s))"

definition GTM_GetGlobalTransactionIdMulti ::
  "gtm_constants \<Rightarrow> bool \<Rightarrow> GTM_TransactionHandle list \<Rightarrow> GTM_Transactions \<Rightarrow>
   (GlobalTransactionId list \<times> GTM_TransactionHandle list) result" where
  "GTM_GetGlobalTransactionIdMulti c Recovery_IsStandby handles s =
     (if Recovery_IsStandby then Inl (StandbyReadOnly, s)
      else if gt_gtm_state s = GTM_SHUTTING_DOWN then Inl (Shutdown, s)
      else case assign_gxids c handles InvalidGlobalTransactionId s of
             Inl e \<Rightarrow> Inl e
           | Inr ((xid, gxids, new_handles), s1) \<Rightarrow>
               (let save_control = save_control_due c xid s1;
                    s2 = (if save_control then s1\<lparr>ControlXid := xid\<rparr> else s1);
                    s3 = (if GTM_NeedXidRestoreUpdate s2 then s2\<lparr>need_backup := True\<rparr> else s2);
                    s4 = (if save_control then SaveControlInfo s3 else s3)
                in Inr ((gxids, new_handles), s4)))"

subsection \<open>Begin\<close>

record begin_req =
  rq_isolevel :: nat
  rq_readonly :: bool
  rq_global_sessionid :: "string option"
  rq_connid :: int

text \<open>
  \<^verbatim>\<open>strncpy\<close> copies at most \<^verbatim>\<open>GTM_MAX_SESSION_ID_LEN\<close> characters into the session-id
  array of the slot and adds no \<^verbatim>\<open>NUL\<close> when the id has that many or more.
\<close>

definition GTM_TransactionInfo_Init ::
  "gtm_constants \<Rightarrow> nat \<Rightarrow> GTM_TransactionHandle \<Rightarrow> nat \<Rightarrow> 32 word \<Rightarrow> int \<Rightarrow> string option \<Rightarrow> bool \<Rightarrow>
   GTM_Transactions \<Rightarrow> GTM_Transactions" where
  "GTM_TransactionInfo_Init c p txn isolevel client_id connid global_sessionid readonly s =
     upd_slot p (\<lambda>t. t\<lparr>
         gti_gxid := InvalidGlobalTransactionId,
         gti_xmin := InvalidGlobalTransactionId,
         gti_state := GTM_TXN_STARTING,
         gti_isolevel := isolevel,
         gti_readonly := readonly,
         gti_in_use := True,
         gti_global_session_id :=
           (case global_sessionid of
              Some sid \<Rightarrow> take (GTM_MAX_SESSION_ID_LEN c) sid
            | None \<Rightarrow> []),
         nodestring := None,
         gti_gid := None,
         gti_handle := txn,
         gti_vacuum := False,
         gti_client_id := client_id,
         gti_proxy_client_id := connid\<rparr>) s"

text \<open>
  The scan for a free slot: \<open>ii\<close> is the loop variable of that name, the last argument
  counts the iterations that remain (\<^verbatim>\<open>GTM_MAX_GLOBAL_TRANSACTIONS - jj\<close>). When the
  loop runs to its end the pointer to the new slot is still \<^verbatim>\<open>NULL\<close>, and
  \<^verbatim>\<open>GTM_TransactionInfo_Init\<close> writes through it.
\<close>

fun scan_slots ::
  "nat \<Rightarrow> GTM_TransactionInfo list \<Rightarrow> int \<Rightarrow> nat \<Rightarrow> nat \<Rightarrow> gtm_error + nat" where
  "scan_slots M arr lastslot ii 0 = Inl NullPointerDereference"
| "scan_slots M arr lastslot ii (Suc n) =
     (if length arr \<le> ii then Inl ArrayOutOfBounds
      else if \<not> gti_in_use (arr ! ii) then Inr ii
      else if int ii = lastslot then Inl CapacityExhausted
      else scan_slots M arr lastslot ((ii + 1) mod M) n)"

definition find_free_slot :: "gtm_constants \<Rightarrow> GTM_Transactions \<Rightarrow> gtm_error + nat" where
  "find_free_slot c s =
     (let startslot = gt_lastslot s + 1;
          startslot = (if startslot \<ge> int (GTM_MAX_GLOBAL_TRANSACTIONS c) then 0 else startslot)
      in if startslot < 0 then Inl ArrayOutOfBounds
         else scan_slots (GTM_MAX_GLOBAL_TRANSACTIONS c) (gt_transactions_array s)
                (gt_lastslot s) (nat startslot) (GTM_MAX_GLOBAL_TRANSACTIONS c))"

text \<open>One round of the loop of \<^verbatim>\<open>GTM_BeginTransactionMulti\<close>.\<close>

definition begin_one ::
  "gtm_constants \<Rightarrow> 32 word \<Rightarrow> begin_req \<Rightarrow> GTM_Transactions \<Rightarrow> GTM_TransactionHandle result" where
  "begin_one c thr_client_id r s =
     (let txn = GTM_GlobalSessionIDToHandle c s (rq_global_sessionid r) in
      if txn \<noteq> InvalidTransactionHandle then
        (case GTM_HandleToTransactionInfo c s txn of
           Inl e \<Rightarrow> Inl (e, s)
         | Inr None \<Rightarrow> Inl (NullPointerDereference, s)
         | Inr (Some p) \<Rightarrow> Inr (txn, s))
      else
        (case find_free_slot c s of
           Inl e \<Rightarrow> Inl (e, s)
         | Inr ii \<Rightarrow>
             Inr (int ii,
                  (GTM_TransactionInfo_Init c ii (int ii) (rq_isolevel r) thr_client_id
                     (rq_connid r) (rq_global_sessionid r) (rq_readonly r) s)
                  \<lparr>gt_lastslot := int ii,
                   gt_open_transactions := gt_open_transactions s @ [ii]\<rparr>)))"

fun GTM_BeginTransactionMulti ::
  "gtm_constants \<Rightarrow> 32 word \<Rightarrow> begin_req list \<Rightarrow> GTM_Transactions \<Rightarrow>
   GTM_TransactionHandle list result" where
  "GTM_BeginTransactionMulti c thr_client_id [] s = Inr ([], s)"
| "GTM_BeginTransactionMulti c thr_client_id (r # rs) s =
     (case begin_one c thr_client_id r s of
        Inl e \<Rightarrow> Inl e
      | Inr (txn, s1) \<Rightarrow>
          (case GTM_BeginTransactionMulti c thr_client_id rs s1 of
             Inl e \<Rightarrow> Inl e
           | Inr (txns, s2) \<Rightarrow> Inr (txn # txns, s2)))"

definition GTM_BeginTransaction ::
  "gtm_constants \<Rightarrow> 32 word \<Rightarrow> nat \<Rightarrow> bool \<Rightarrow> string option \<Rightarrow> GTM_Transactions \<Rightarrow>
   GTM_TransactionHandle result" where
  "GTM_BeginTransaction c thr_client_id isolevel readonly global_sessionid s =
     begin_one c thr_client_id
       \<lparr>rq_isolevel = isolevel, rq_readonly = readonly,
        rq_global_sessionid = global_sessionid, rq_connid = - 1\<rparr> s"

subsection \<open>Rollback, commit and two-phase commit\<close>

text \<open>
  The first loop of \<^verbatim>\<open>GTM_RollbackTransactionMulti\<close>; it returns the array
  \<^verbatim>\<open>gtm_txninfo[]\<close> and \<^verbatim>\<open>status[]\<close>.
\<close>

fun rollback_mark ::
  "gtm_constants \<Rightarrow> GTM_TransactionHandle list \<Rightarrow> GTM_Transactions \<Rightarrow>
   (nat option list \<times> status list) result" where
  "rollback_mark c [] s = Inr (([], []), s)"
| "rollback_mark c (h # hs) s =
     (case GTM_HandleToTransactionInfo c s h of
        Inl e \<Rightarrow> Inl (e, s)
      | Inr None \<Rightarrow>
          (case rollback_mark c hs s of
             Inl e \<Rightarrow> Inl e
           | Inr ((ps, sts), s') \<Rightarrow> Inr ((None # ps, STATUS_ERROR # sts), s'))
      | Inr (Some p) \<Rightarrow>
          (case rollback_mark c hs
                  (upd_slot p (\<lambda>t. t\<lparr>gti_state := GTM_TXN_ABORT_IN_PROGRESS\<rparr>) s) of
             Inl e \<Rightarrow> Inl e
           | Inr ((ps, sts), s') \<Rightarrow> Inr ((Some p # ps, STATUS_OK # sts), s')))"

definition GTM_RollbackTransactionMulti ::
  "gtm_constants \<Rightarrow> GTM_TransactionHandle list \<Rightarrow> GTM_Transactions \<Rightarrow> status list result" where
  "GTM_RollbackTransactionMulti c txn s =
     (case rollback_mark c txn s of
        Inl e \<Rightarrow> Inl e
      | Inr ((ps, sts), s1) \<Rightarrow> Inr (sts, GTM_RemoveTransInfoMulti ps s1))"

text \<open>
  The first loop of \<^verbatim>\<open>GTM_CommitTransactionMulti\<close>; it returns \<^verbatim>\<open>remove_txninfo[]\<close>
  and \<^verbatim>\<open>status[]\<close>. The inner loop over \<^verbatim>\<open>waited_xids[]\<close> stops at the first GXID
  in progress.
\<close>

fun commit_mark ::
  "gtm_constants \<Rightarrow> GTM_TransactionHandle list \<Rightarrow> GlobalTransactionId list \<Rightarrow> GTM_Transactions \<Rightarrow>
   (nat option list \<times> status list) result" where
  "commit_mark c [] waited_xids s = Inr (([], []), s)"
| "commit_mark c (h # hs) waited_xids s =
     (case GTM_HandleToTransactionInfo c s h of
        Inl e \<Rightarrow> Inl (e, s)
      | Inr None \<Rightarrow>
          (case commit_mark c hs waited_xids s of
             Inl e \<Rightarrow> Inl e
           | Inr ((ps, sts), s') \<Rightarrow> Inr ((ps, STATUS_ERROR # sts), s'))
      | Inr (Some p) \<Rightarrow>
          if list_ex (GTM_IsGXIDInProgress s) waited_xids then
            (case commit_mark c hs waited_xids s of
               Inl e \<Rightarrow> Inl e
             | Inr ((ps, sts), s') \<Rightarrow> Inr ((ps, STATUS_DELAYED # sts), s'))
          else
            (case commit_mark c hs waited_xids
                    (upd_slot p (\<lambda>t. t\<lparr>gti_state := GTM_TXN_COMMIT_IN_PROGRESS\<rparr>) s) of
               Inl e \<Rightarrow> Inl e
             | Inr ((ps, sts), s') \<Rightarrow> Inr ((Some p # ps, STATUS_OK # sts), s')))"

definition GTM_CommitTransactionMulti ::
  "gtm_constants \<Rightarrow> GTM_TransactionHandle list \<Rightarrow> GlobalTransactionId list \<Rightarrow> GTM_Transactions \<Rightarrow>
   status list result" where
  "GTM_CommitTransactionMulti c txn waited_xids s =
     (case commit_mark c txn waited_xids s of
        Inl e \<Rightarrow> Inl e
      | Inr ((ps, sts), s1) \<Rightarrow> Inr (sts, GTM_RemoveTransInfoMulti ps s1))"

text \<open>
  \<open>assert_checking\<close> tells whether the build has assertions enabled; the assertion
  comes after the assignment to \<^verbatim>\<open>gti_state\<close>.
\<close>

definition GTM_PrepareTransaction ::
  "bool \<Rightarrow> gtm_constants \<Rightarrow> GTM_TransactionHandle \<Rightarrow> GTM_Transactions \<Rightarrow> status result" where
  "GTM_PrepareTransaction assert_checking c txn s =
     (case GTM_HandleToTransactionInfo c s txn of
        Inl e \<Rightarrow> Inl (e, s)
      | Inr None \<Rightarrow> Inr (STATUS_ERROR, s)
      | Inr (Some p) \<Rightarrow>
          (let state = gti_state (slot s p);
               s' = upd_slot p (\<lambda>t. t\<lparr>gti_state := GTM_TXN_PREPARED\<rparr>) s
           in if assert_checking \<and> state \<noteq> GTM_TXN_PREPARE_IN_PROGRESS
              then Inl (AssertionFailed, s')
              else Inr (STATUS_OK, s')))"

text \<open>
  The node string and the GID are copied, with their terminating \<^verbatim>\<open>NUL\<close>, into buffers
  of \<^verbatim>\<open>GTM_MAX_NODESTRING_LEN\<close> and \<^verbatim>\<open>GTM_MAX_GID_LEN\<close> bytes. No length is tested:
  \<^verbatim>\<open>memcpy\<close> writes past the buffer when the string does not fit.
\<close>

definition GTM_StartPreparedTransaction ::
  "gtm_constants \<Rightarrow> GTM_TransactionHandle \<Rightarrow> string \<Rightarrow> string \<Rightarrow> GTM_Transactions \<Rightarrow> status result" where
  "GTM_StartPreparedTransaction c txn gid nodes s =
     (case GTM_HandleToTransactionInfo c s txn of
        Inl e \<Rightarrow> Inl (e, s)
      | Inr None \<Rightarrow> Inr (STATUS_ERROR, s)
      | Inr (Some p) \<Rightarrow>
          if GTM_GIDToHandle s gid \<noteq> InvalidTransactionHandle then Inr (STATUS_ERROR, s)
          else if GTM_MAX_NODESTRING_LEN c < length nodes + 1 then
            Inl (BufferOverflow,
                 upd_slot p (\<lambda>t. t\<lparr>gti_state := GTM_TXN_PREPARE_IN_PROGRESS\<rparr>) s)
          else if GTM_MAX_GID_LEN c < length gid + 1 then
            Inl (BufferOverflow,
                 upd_slot p (\<lambda>t. t\<lparr>gti_state := GTM_TXN_PREPARE_IN_PROGRESS,
                                    nodestring := Some nodes\<rparr>) s)
          else Inr (STATUS_OK,
                    upd_slot p (\<lambda>t. t\<lparr>gti_state := GTM_TXN_PREPARE_IN_PROGRESS,
                                       nodestring := Some nodes,
                                       gti_gid := Some gid\<rparr>) s))"

subsection \<open>Begin with a GXID, on the standby\<close>

text \<open>
  The loop of \<^verbatim>\<open>GTM_BkupBeginTransactionGetGXIDMulti\<close> over the handles that
  \<^verbatim>\<open>GTM_BeginTransactionMulti\<close> returned. \<open>xid\<close> is the local of that name. The
  call is taken to carry no more transactions than the local array \<^verbatim>\<open>txn[]\<close> holds.
\<close>

definition bkup_advance :: "GlobalTransactionId \<Rightarrow> GTM_Transactions \<Rightarrow> GTM_Transactions" where
  "bkup_advance gxid s =
     (let s1 = (if GlobalTransactionIdPrecedesOrEquals (gt_nextXid s) gxid
                then s\<lparr>gt_nextXid := gxid + 1\<rparr> else s)
      in if \<not> GlobalTransactionIdIsValid (gt_nextXid s1)
         then s1\<lparr>gt_nextXid := FirstNormalGlobalTransactionId\<rparr> else s1)"

fun bkup_assign ::
  "gtm_constants \<Rightarrow> (GlobalTransactionId \<times> begin_req) list \<Rightarrow> GTM_TransactionHandle list \<Rightarrow>
   GlobalTransactionId \<Rightarrow> GTM_Transactions \<Rightarrow> GlobalTransactionId result" where
  "bkup_assign c ((gxid, r) # rs) (txn # txns) xid s =
     (case GTM_HandleToTransactionInfo c s txn of
        Inl e \<Rightarrow> Inl (e, s)
      | Inr None \<Rightarrow> Inl (NullPointerDereference, s)
      | Inr (Some p) \<Rightarrow>
          (let s1 = upd_slot p (\<lambda>t. t\<lparr>gti_gxid := gxid\<rparr>) s;
               s2 = (case rq_global_sessionid r of
                       Some sid \<Rightarrow>
                         upd_slot p (\<lambda>t. t\<lparr>gti_global_session_id :=
                                              take (GTM_MAX_SESSION_ID_LEN c) sid\<rparr>) s1
                     | None \<Rightarrow> s1);
               s3 = bkup_advance gxid s2
           in bkup_assign c rs txns (gt_nextXid s3) s3))"
| "bkup_assign c rs txns xid s = Inr (xid, s)"

definition GTM_BkupBeginTransactionGetGXIDMulti ::
  "gtm_constants \<Rightarrow> 32 word \<Rightarrow> (GlobalTransactionId \<times> begin_req) list \<Rightarrow> GTM_Transactions \<Rightarrow>
   unit result" where
  "GTM_BkupBeginTransactionGetGXIDMulti c thr_client_id reqs s =
     (case GTM_BeginTransactionMulti c thr_client_id (map snd reqs) s of
        Inl e \<Rightarrow> Inl e
      | Inr (txn, s1) \<Rightarrow>
          (case bkup_assign c reqs txn InvalidGlobalTransactionId s1 of
             Inl e \<Rightarrow> Inl e
           | Inr (xid, s2) \<Rightarrow>
               (let save_control = save_control_due c xid s2;
                    s3 = (if save_control then s2\<lparr>ControlXid := xid\<rparr> else s2);
                    s4 = (if save_control then SaveControlInfo s3 else s3)
                in Inr ((), s4))))"

definition GTM_BkupBeginTransactionGetGXID ::
  "gtm_constants \<Rightarrow> 32 word \<Rightarrow> GlobalTransactionId \<Rightarrow> nat \<Rightarrow> bool \<Rightarrow> string option \<Rightarrow>
   GTM_Transactions \<Rightarrow> unit result" where
  "GTM_BkupBeginTransactionGetGXID c thr_client_id gxid isolevel readonly global_sessionid s =
     GTM_BkupBeginTransactionGetGXIDMulti c thr_client_id
       [(gxid, \<lparr>rq_isolevel = isolevel, rq_readonly = readonly,
                rq_global_sessionid = global_sessionid, rq_connid = - 1\<rparr>)] s"

subsection \<open>Start-up and shutdown\<close>

definition GTM_SetNextGlobalTransactionId ::
  "GlobalTransactionId \<Rightarrow> GTM_Transactions \<Rightarrow> GTM_Transactions" where
  "GTM_SetNextGlobalTransactionId gxid s = s\<lparr>gt_nextXid := gxid, gt_gtm_state := GTM_RUNNING\<rparr>"

definition GTM_SetControlXid :: "GlobalTransactionId \<Rightarrow> GTM_Transactions \<Rightarrow> GTM_Transactions" where
  "GTM_SetControlXid gxid s = s\<lparr>ControlXid := gxid\<rparr>"

definition GTM_SetShuttingDown :: "GTM_Transactions \<Rightarrow> GTM_Transactions" where
  "GTM_SetShuttingDown s = s\<lparr>gt_gtm_state := GTM_SHUTTING_DOWN\<rparr>"

subsection \<open>Runs of the transaction manager\<close>

text \<open>
  The operations of the file as one step function, and the tables that a run of
  operations from the initial table can produce. After \<^verbatim>\<open>ereport(ERROR, ...)\<close> the
  server goes on with the table as the failed request left it; after a read past an
  array, a write past a buffer or through \<^verbatim>\<open>NULL\<close>, or a failed assertion there is no
  next table.
\<close>

datatype gtm_op =
    Op_Begin "32 word" "begin_req list"
  | Op_GetGXID bool "GTM_TransactionHandle list"
  | Op_Commit "GTM_TransactionHandle list" "GlobalTransactionId list"
  | Op_Rollback "GTM_TransactionHandle list"
  | Op_StartPrepared GTM_TransactionHandle string string
  | Op_Prepare bool GTM_TransactionHandle
  | Op_Reap "32 word" int
  | Op_BkupBeginGetGXID "32 word" "(GlobalTransactionId \<times> begin_req) list"
  | Op_SetNextXid GlobalTransactionId
  | Op_SetControlXid GlobalTransactionId
  | Op_SetShuttingDown

definition state_of :: "'a result \<Rightarrow> (gtm_error \<times> GTM_Transactions) + GTM_Transactions" where
  "state_of r = (case r of Inl e \<Rightarrow> Inl e | Inr (x, s) \<Rightarrow> Inr s)"

fun exec :: "gtm_constants \<Rightarrow> gtm_op \<Rightarrow> GTM_Transactions \<Rightarrow>
             (gtm_error \<times> GTM_Transactions) + GTM_Transactions" where
  "exec c (Op_Begin cid rs) s = state_of (GTM_BeginTransactionMulti c cid rs s)"
| "exec c (Op_GetGXID standby hs) s = state_of (GTM_GetGlobalTransactionIdMulti c standby hs s)"
| "exec c (Op_Commit hs ws) s = state_of (GTM_CommitTransactionMulti c hs ws s)"
| "exec c (Op_Rollback hs) s = state_of (GTM_RollbackTransactionMulti c hs s)"
| "exec c (Op_StartPrepared h gid nodes) s = state_of (GTM_StartPreparedTransaction c h gid nodes s)"
| "exec c (Op_Prepare ac h) s = state_of (GTM_PrepareTransaction ac c h s)"
| "exec c (Op_Reap cid bid) s = Inr (GTM_RemoveAllTransInfos cid bid s)"
| "exec c (Op_BkupBeginGetGXID cid rs) s = state_of (GTM_BkupBeginTransactionGetGXIDMulti c cid rs s)"
| "exec c (Op_SetNextXid g) s = Inr (GTM_SetNextGlobalTransactionId g s)"
| "exec c (Op_SetControlXid g) s = Inr (GTM_SetControlXid g s)"
| "exec c Op_SetShuttingDown s = Inr (GTM_SetShuttingDown s)"

definition is_fault :: "gtm_error \<Rightarrow> bool" where
  "is_fault e =
     (e = ArrayOutOfBounds \<or> e = NullPointerDereference \<or> e = BufferOverflow \<or>
      e = AssertionFailed)"

inductive reachable :: "gtm_constants \<Rightarrow> GTM_Transactions \<Rightarrow> bool" for c where
  reachable_init: "reachable c (GTM_InitTxnManager c)"
| reachable_step: "reachable c s \<Longrightarrow> exec c op s = Inr s' \<Longrightarrow> reachable c s'"
| reachable_error:
    "reachable c s \<Longrightarrow> exec c op s = Inl (e, s') \<Longrightarrow> \<not> is_fault e \<Longrightarrow> reachable c s'"

text \<open>
  What every table of a run satisfies: the array has its declared size, the open list
  holds each slot in use once and nothing else, an open slot carries its own index as
  handle, the cursor is \<open>- 1\<close> only while nothing has ever been allocated, and no two
  open slots carry the same GID.
\<close>

definition gid_unique :: "GTM_Transactions \<Rightarrow> bool" where
  "gid_unique s =
     (\<forall>p \<in> set (gt_open_transactions s). \<forall>q \<in> set (gt_open_transactions s).
        gti_gid (slot s p) \<noteq> None \<and> gti_gid (slot s p) = gti_gid (slot s q) \<longrightarrow> p = q)"

definition table_inv :: "gtm_constants \<Rightarrow> GTM_Transactions \<Rightarrow> bool" where
  "table_inv c s =
     (length (gt_transactions_array s) = GTM_MAX_GLOBAL_TRANSACTIONS c \<and>
      distinct (gt_open_transactions s) \<and>
      (\<forall>p \<in> set (gt_open_transactions s).
         p < GTM_MAX_GLOBAL_TRANSACTIONS c \<and> gti_in_use (slot s p) \<and>
         gti_handle (slot s p) = int p) \<and>
      (\<forall>p < GTM_MAX_GLOBAL_TRANSACTIONS c. gti_in_use (slot s p) \<longrightarrow>
         p \<in> set (gt_open_transactions s)) \<and>
      - 1 \<le> gt_lastslot s \<and> gt_lastslot s < int (GTM_MAX_GLOBAL_TRANSACTIONS c) \<and>
      (gt_lastslot s = - 1 \<longrightarrow> gt_open_transactions s = []) \<and>
      gid_unique s)"

definition result_inv :: "gtm_constants \<Rightarrow> 'a result \<Rightarrow> bool" where
  "result_inv c r = (case r of Inl (e, s) \<Rightarrow> table_inv c s | Inr (x, s) \<Rightarrow> table_inv c s)"

subsection \<open>The wording of the specification\<close>

text \<open>
  The larger of two GXIDs under the modular comparison, and the modular maximum of a
  value and a list of GXIDs taken in order.
\<close>

definition gxid_max :: "GlobalTransactionId \<Rightarrow> GlobalTransactionId \<Rightarrow> GlobalTransactionId" where
  "gxid_max a b = (if GlobalTransactionIdFollowsOrEquals b a then b else a)"

definition modular_max :: "GlobalTransactionId \<Rightarrow> GlobalTransactionId list \<Rightarrow> GlobalTransactionId" where
  "modular_max a gs = foldl gxid_max a gs"

text \<open>The GXIDs of the given slots that are normal, in the order of the slots.\<close>

definition normal_gxids :: "GTM_Transactions \<Rightarrow> nat list \<Rightarrow> GlobalTransactionId list" where
  "normal_gxids s ps = filter GlobalTransactionIdIsNormal (map (\<lambda>p. gti_gxid (slot s p)) ps)"

text \<open>The pointers of an array of pointers that are not \<^verbatim>\<open>NULL\<close>.\<close>

definition non_null :: "nat option list \<Rightarrow> nat list" where
  "non_null ps = map the (filter (\<lambda>x. x \<noteq> None) ps)"

text \<open>A GXID is present in the open list when it is valid and an open slot carries it.\<close>

definition gxid_open :: "GTM_Transactions \<Rightarrow> GlobalTransactionId \<Rightarrow> bool" where
  "gxid_open s g =
     (g \<noteq> InvalidGlobalTransactionId \<and>
      (\<exists>p \<in> set (gt_open_transactions s). gti_gxid (slot s p) = g))"

text \<open>A handle is valid when it is an index of the slot array and the slot is in use.\<close>

definition valid_handle :: "gtm_constants \<Rightarrow> GTM_Transactions \<Rightarrow> GTM_TransactionHandle \<Rightarrow> bool" where
  "valid_handle c s h =
     (0 \<le> h \<and> h < int (GTM_MAX_GLOBAL_TRANSACTIONS c) \<and> gti_in_use (slot s (nat h)))"

text \<open>The slots that \<open>reap(client_id, proxy_client_id)\<close> is to remove.\<close>

definition reap_wanted :: "32 word \<Rightarrow> int \<Rightarrow> GTM_TransactionInfo \<Rightarrow> bool" where
  "reap_wanted client_id proxy_client_id t =
     (gti_client_id t = client_id \<and>
      (proxy_client_id = - 1 \<or> gti_proxy_client_id t = proxy_client_id) \<and>
      gti_state t \<noteq> GTM_TXN_PREPARED \<and> gti_state t \<noteq> GTM_TXN_PREPARE_IN_PROGRESS)"

text \<open>A GID is carried by at most one open transaction.\<close>

definition carriers :: "GTM_Transactions \<Rightarrow> string \<Rightarrow> nat list" where
  "carriers s gid = filter (\<lambda>p. gti_gid (slot s p) = Some gid) (gt_open_transactions s)"

text \<open>The same begin-with-GXID mirror call applied twice.\<close>

definition bkup_twice ::
  "gtm_constants \<Rightarrow> 32 word \<Rightarrow> GlobalTransactionId \<Rightarrow> nat \<Rightarrow> bool \<Rightarrow> string option \<Rightarrow>
   GTM_Transactions \<Rightarrow> unit result" where
  "bkup_twice c thr_client_id gxid isolevel readonly global_sessionid s =
     (case GTM_BkupBeginTransactionGetGXID c thr_client_id gxid isolevel readonly global_sessionid s of
        Inl e \<Rightarrow> Inl e
      | Inr (u, s1) \<Rightarrow>
          GTM_BkupBeginTransactionGetGXID c thr_client_id gxid isolevel readonly global_sessionid s1)"

text \<open>The position of the scan for a free slot after \<open>k\<close> steps.\<close>

definition scan_pos :: "gtm_constants \<Rightarrow> GTM_Transactions \<Rightarrow> nat \<Rightarrow> nat" where
  "scan_pos c s k =
     (nat (gt_lastslot s + 1) + k) mod GTM_MAX_GLOBAL_TRANSACTIONS c"

subsection \<open>A small instance\<close>

text \<open>
  Two slots, a control interval of 8 and buffers of 8 bytes; behind the session-id array
  of a slot lies the flag \<^verbatim>\<open>gti_in_use\<close>, a byte of value 1 while the slot is in use.
\<close>

definition small :: gtm_constants where
  "small = \<lparr>GTM_MAX_GLOBAL_TRANSACTIONS = 2, CONTROL_INTERVAL = 8, GTM_MAX_SESSION_ID_LEN = 8,
             GTM_MAX_GID_LEN = 8, GTM_MAX_NODESTRING_LEN = 8,
             after_session_id = (\<lambda>t. if gti_in_use t then [CHR 0x01] else [])\<rparr>"

definition req :: "string option \<Rightarrow> begin_req" where
  "req sid = \<lparr>rq_isolevel = 2, rq_readonly = False, rq_global_sessionid = sid, rq_connid = - 1\<rparr>"

text \<open>
  A run of operations; a request that fails with \<^verbatim>\<open>ereport(ERROR, ...)\<close> leaves the
  table as it stood when the error was raised, and the run stops at a crash.
\<close>

fun run :: "gtm_constants \<Rightarrow> gtm_op list \<Rightarrow> GTM_Transactions \<Rightarrow> GTM_Transactions" where
  "run c [] s = s"
| "run c (op # ops) s =
     (case exec c op s of
        Inr s' \<Rightarrow> run c ops s'
      | Inl (e, s') \<Rightarrow> if is_fault e then s else run c ops s')"

text \<open>The small table with one transaction open, and with both slots taken.\<close>

definition one_open :: GTM_Transactions where
  "one_open = run small [Op_Begin 7 [req (Some ''S1'')]] (GTM_InitTxnManager small)"

definition both_open :: GTM_Transactions where
  "both_open =
     run small [Op_Begin 7 [req (Some ''S1''), req (Some ''S2'')], Op_GetGXID False [0, 1]]
       (GTM_InitTxnManager small)"

text \<open>
  One transaction open and the next GXID 8 or 9 past the control GXID; a standby whose
  next GXID is close to the wrap.
\<close>

definition at_interval :: GTM_Transactions where
  "at_interval =
     run small [Op_Begin 7 [req (Some ''S1'')], Op_SetNextXid 11] (GTM_InitTxnManager small)"

definition past_interval :: GTM_Transactions where
  "past_interval =
     run small [Op_Begin 7 [req (Some ''S1'')], Op_SetNextXid 12] (GTM_InitTxnManager small)"




text \<open>Both slots taken, the transaction of the first one in the first phase of 2PC.\<close>

definition one_prepared :: GTM_Transactions where
  "one_prepared =
     run small [Op_Begin 7 [req (Some ''S1''), req (Some ''S2'')], Op_GetGXID False [0, 1],
                Op_StartPrepared 0 ''GID-1'' ''nodes'']
       (GTM_InitTxnManager small)"

text \<open>
  What \<^verbatim>\<open>GTM_BkupBeginTransactionGetGXIDMulti\<close> does for one handle once the slot is
  found, and the decision on the control file that ends it.
\<close>

definition mirror_store ::
  "gtm_constants \<Rightarrow> GlobalTransactionId \<Rightarrow> string option \<Rightarrow> nat \<Rightarrow> GTM_Transactions \<Rightarrow> GTM_Transactions" where
  "mirror_store c gxid global_sessionid p s =
     (let s1 = upd_slot p (\<lambda>t. t\<lparr>gti_gxid := gxid\<rparr>) s;
          s2 = (case global_sessionid of
                  Some sid \<Rightarrow>
                    upd_slot p (\<lambda>t. t\<lparr>gti_global_session_id :=
                                         take (GTM_MAX_SESSION_ID_LEN c) sid\<rparr>) s1
                | None \<Rightarrow> s1)
      in bkup_advance gxid s2)"

definition control_checkpoint ::
  "gtm_constants \<Rightarrow> GlobalTransactionId \<Rightarrow> GTM_Transactions \<Rightarrow> GTM_Transactions" where
  "control_checkpoint c xid s =
     (let save_control = save_control_due c xid s;
          s3 = (if save_control then s\<lparr>ControlXid := xid\<rparr> else s)
      in if save_control then SaveControlInfo s3 else s3)"

section \<open>Properties\<close>

subsection \<open>Handle lookup\<close>

lemma handle_lookup_Some:
  "GTM_HandleToTransactionInfo c s h = Inr (Some p) \<longleftrightarrow>
     0 \<le> h \<and> h \<le> int (GTM_MAX_GLOBAL_TRANSACTIONS c) \<and> p = nat h \<and>
     nat h < length (gt_transactions_array s) \<and> gti_in_use (slot s (nat h))"
  by (auto simp: GTM_HandleToTransactionInfo_def)

lemma handle_lookup_None:
  "GTM_HandleToTransactionInfo c s h = Inr None \<longleftrightarrow>
     h < 0 \<or> int (GTM_MAX_GLOBAL_TRANSACTIONS c) < h \<or>
     (nat h < length (gt_transactions_array s) \<and> \<not> gti_in_use (slot s (nat h)))"
  by (auto simp: GTM_HandleToTransactionInfo_def)

lemma handle_lookup_Inl:
  "GTM_HandleToTransactionInfo c s h = Inl e \<longleftrightarrow>
     e = ArrayOutOfBounds \<and> 0 \<le> h \<and> h \<le> int (GTM_MAX_GLOBAL_TRANSACTIONS c) \<and>
     length (gt_transactions_array s) \<le> nat h"
  by (auto simp: GTM_HandleToTransactionInfo_def)

subsection \<open>What every table of a run satisfies\<close>

lemma slot_upd_slot:
  "slot (upd_slot p f s) q =
     (if q = p \<and> p < length (gt_transactions_array s) then f (slot s p) else slot s q)"
  by (cases "p < length (gt_transactions_array s)")
     (simp_all add: slot_def upd_slot_def list_update_beyond not_less)

lemma upd_slot_fields [simp]:
  "gt_open_transactions (upd_slot p f s) = gt_open_transactions s"
  "gt_lastslot (upd_slot p f s) = gt_lastslot s"
  "gt_nextXid (upd_slot p f s) = gt_nextXid s"
  "gt_latestCompletedXid (upd_slot p f s) = gt_latestCompletedXid s"
  "ControlXid (upd_slot p f s) = ControlXid s"
  "control_saves (upd_slot p f s) = control_saves s"
  "gt_gtm_state (upd_slot p f s) = gt_gtm_state s"
  "seq_calls (upd_slot p f s) = seq_calls s"
  "need_backup (upd_slot p f s) = need_backup s"
  "gt_backedUpXid (upd_slot p f s) = gt_backedUpXid s"
  "gt_xidVacLimit (upd_slot p f s) = gt_xidVacLimit s"
  "gt_xidStopLimit (upd_slot p f s) = gt_xidStopLimit s"
  "length (gt_transactions_array (upd_slot p f s)) = length (gt_transactions_array s)"
  by (simp_all add: upd_slot_def)

lemma table_inv_init: "table_inv c (GTM_InitTxnManager c)"
  by (simp add: table_inv_def gid_unique_def GTM_InitTxnManager_def slot_def zero_txninfo_def)

lemma inv_length: "table_inv c s \<Longrightarrow> length (gt_transactions_array s) = GTM_MAX_GLOBAL_TRANSACTIONS c"
  by (simp add: table_inv_def)

lemma inv_distinct: "table_inv c s \<Longrightarrow> distinct (gt_open_transactions s)"
  by (simp add: table_inv_def)

lemma inv_open:
  "table_inv c s \<Longrightarrow> p \<in> set (gt_open_transactions s) \<Longrightarrow>
   p < GTM_MAX_GLOBAL_TRANSACTIONS c \<and> gti_in_use (slot s p) \<and> gti_handle (slot s p) = int p"
  by (simp add: table_inv_def)

lemma inv_in_use:
  "table_inv c s \<Longrightarrow> p < GTM_MAX_GLOBAL_TRANSACTIONS c \<Longrightarrow> gti_in_use (slot s p) \<Longrightarrow>
   p \<in> set (gt_open_transactions s)"
  by (simp add: table_inv_def)

lemma inv_lastslot:
  "table_inv c s \<Longrightarrow> - 1 \<le> gt_lastslot s \<and> gt_lastslot s < int (GTM_MAX_GLOBAL_TRANSACTIONS c) \<and>
     (gt_lastslot s = - 1 \<longrightarrow> gt_open_transactions s = [])"
  by (simp add: table_inv_def)

lemma inv_gid: "table_inv c s \<Longrightarrow> gid_unique s"
  by (simp add: table_inv_def)

lemma gid_uniqueD:
  "gid_unique s \<Longrightarrow> p \<in> set (gt_open_transactions s) \<Longrightarrow> q \<in> set (gt_open_transactions s) \<Longrightarrow>
   gti_gid (slot s p) = Some g \<Longrightarrow> gti_gid (slot s q) = Some g \<Longrightarrow> p = q"
  unfolding gid_unique_def by fastforce

lemma gid_uniqueD':
  "gid_unique s \<Longrightarrow> p \<in> set (gt_open_transactions s) \<Longrightarrow> q \<in> set (gt_open_transactions s) \<Longrightarrow>
   gti_gid (slot s p) \<noteq> None \<Longrightarrow> gti_gid (slot s p) = gti_gid (slot s q) \<Longrightarrow> p = q"
  unfolding gid_unique_def by blast

lemma table_invI:
  "length (gt_transactions_array s) = GTM_MAX_GLOBAL_TRANSACTIONS c \<Longrightarrow>
   distinct (gt_open_transactions s) \<Longrightarrow>
   (\<And>p. p \<in> set (gt_open_transactions s) \<Longrightarrow>
      p < GTM_MAX_GLOBAL_TRANSACTIONS c \<and> gti_in_use (slot s p) \<and> gti_handle (slot s p) = int p) \<Longrightarrow>
   (\<And>p. p < GTM_MAX_GLOBAL_TRANSACTIONS c \<Longrightarrow> gti_in_use (slot s p) \<Longrightarrow>
      p \<in> set (gt_open_transactions s)) \<Longrightarrow>
   - 1 \<le> gt_lastslot s \<Longrightarrow> gt_lastslot s < int (GTM_MAX_GLOBAL_TRANSACTIONS c) \<Longrightarrow>
   (gt_lastslot s = - 1 \<Longrightarrow> gt_open_transactions s = []) \<Longrightarrow>
   gid_unique s \<Longrightarrow> table_inv c s"
  unfolding table_inv_def by blast

lemma table_inv_frame:
  "gt_transactions_array s' = gt_transactions_array s \<Longrightarrow>
   gt_open_transactions s' = gt_open_transactions s \<Longrightarrow>
   gt_lastslot s' = gt_lastslot s \<Longrightarrow> table_inv c s' = table_inv c s"
  by (simp add: table_inv_def gid_unique_def slot_def)

lemma table_inv_upd_slot:
  assumes "table_inv c s"
    and "gti_in_use (f (slot s p)) = gti_in_use (slot s p)"
    and "gti_handle (f (slot s p)) = gti_handle (slot s p)"
    and "gti_gid (f (slot s p)) = gti_gid (slot s p)"
  shows "table_inv c (upd_slot p f s)"
proof -
  have eq: "\<And>q. gti_in_use (slot (upd_slot p f s) q) = gti_in_use (slot s q)"
      "\<And>q. gti_handle (slot (upd_slot p f s) q) = gti_handle (slot s q)"
      "\<And>q. gti_gid (slot (upd_slot p f s) q) = gti_gid (slot s q)"
    using assms(2-4) by (simp_all add: slot_upd_slot)
  have "table_inv c (upd_slot p f s) = table_inv c s"
    unfolding table_inv_def gid_unique_def eq upd_slot_fields ..
  then show ?thesis using assms(1) by simp
qed

lemma table_inv_alloc:
  assumes inv: "table_inv c s" and ii: "ii < GTM_MAX_GLOBAL_TRANSACTIONS c"
    and free: "\<not> gti_in_use (slot s ii)"
  shows "table_inv c
           ((GTM_TransactionInfo_Init c ii (int ii) isol cid conn sid ro s)
              \<lparr>gt_lastslot := int ii, gt_open_transactions := gt_open_transactions s @ [ii]\<rparr>)"
    (is "table_inv c ?s'")
proof -
  have len: "length (gt_transactions_array s) = GTM_MAX_GLOBAL_TRANSACTIONS c"
    using inv by (rule inv_length)
  have notin: "ii \<notin> set (gt_open_transactions s)"
    using inv_open[OF inv, of ii] free by blast
  have sl: "\<And>q. q \<noteq> ii \<Longrightarrow> slot ?s' q = slot s q"
    by (simp add: slot_def GTM_TransactionInfo_Init_def upd_slot_def)
  have sii: "gti_in_use (slot ?s' ii)" "gti_handle (slot ?s' ii) = int ii" "gti_gid (slot ?s' ii) = None"
    using ii len by (simp_all add: slot_def GTM_TransactionInfo_Init_def upd_slot_def)
  have op: "gt_open_transactions ?s' = gt_open_transactions s @ [ii]" by simp
  have ls: "gt_lastslot ?s' = int ii" by simp
  have ln: "length (gt_transactions_array ?s') = GTM_MAX_GLOBAL_TRANSACTIONS c"
    using len by (simp add: GTM_TransactionInfo_Init_def)
  show ?thesis
  proof (rule table_invI)
    show "length (gt_transactions_array ?s') = GTM_MAX_GLOBAL_TRANSACTIONS c" by (rule ln)
    show "distinct (gt_open_transactions ?s')"
      unfolding op using inv_distinct[OF inv] notin by simp
    show "- 1 \<le> gt_lastslot ?s'" unfolding ls by simp
    show "gt_lastslot ?s' < int (GTM_MAX_GLOBAL_TRANSACTIONS c)" unfolding ls using ii by simp
    show "gt_lastslot ?s' = - 1 \<Longrightarrow> gt_open_transactions ?s' = []" unfolding ls by simp
  next
    fix p assume "p \<in> set (gt_open_transactions ?s')"
    then have "p = ii \<or> (p \<noteq> ii \<and> p \<in> set (gt_open_transactions s))"
      unfolding op by auto
    then show "p < GTM_MAX_GLOBAL_TRANSACTIONS c \<and> gti_in_use (slot ?s' p) \<and>
         gti_handle (slot ?s' p) = int p"
    proof
      assume "p = ii" then show ?thesis using sii ii by simp
    next
      assume "p \<noteq> ii \<and> p \<in> set (gt_open_transactions s)"
      then show ?thesis using inv_open[OF inv, of p] sl[of p] by simp
    qed
  next
    fix p assume p: "p < GTM_MAX_GLOBAL_TRANSACTIONS c" "gti_in_use (slot ?s' p)"
    show "p \<in> set (gt_open_transactions ?s')"
    proof (cases "p = ii")
      case True then show ?thesis unfolding op by simp
    next
      case False
      then have "gti_in_use (slot s p)" using p sl[of p] by simp
      then show ?thesis unfolding op using inv_in_use[OF inv p(1)] by simp
    qed
  next
    show "gid_unique ?s'"
      unfolding gid_unique_def
    proof (intro ballI impI)
      fix p q assume p: "p \<in> set (gt_open_transactions ?s')" and q: "q \<in> set (gt_open_transactions ?s')"
        and h: "gti_gid (slot ?s' p) \<noteq> None \<and> gti_gid (slot ?s' p) = gti_gid (slot ?s' q)"
      from h sii have ne: "p \<noteq> ii" "q \<noteq> ii" by auto
      then have m: "p \<in> set (gt_open_transactions s)" "q \<in> set (gt_open_transactions s)"
        using p q unfolding op by auto
      have e: "slot ?s' p = slot s p" "slot ?s' q = slot s q"
        using ne sl by auto
      from h[unfolded e] show "p = q" using gid_uniqueD'[OF inv_gid[OF inv] m] by blast
    qed
  qed
qed


lemma find_SomeD: "find P xs = Some x \<Longrightarrow> P x \<and> x \<in> set xs"
  by (induction xs) (auto split: if_splits)

lemma note_completed_fields [simp]:
  "gt_transactions_array (note_completed g s) = gt_transactions_array s"
  "gt_open_transactions (note_completed g s) = gt_open_transactions s"
  "gt_lastslot (note_completed g s) = gt_lastslot s"
  "seq_calls (note_completed g s) = seq_calls s"
  "gt_nextXid (note_completed g s) = gt_nextXid s"
  "ControlXid (note_completed g s) = ControlXid s"
  "control_saves (note_completed g s) = control_saves s"
  by (simp_all add: note_completed_def)

lemma slot_note_completed [simp]: "slot (note_completed g s) q = slot s q"
  by (simp add: slot_def)

lemma Clean_fields [simp]:
  "gt_open_transactions (GTM_TransactionInfo_Clean p s) = gt_open_transactions s"
  "gt_lastslot (GTM_TransactionInfo_Clean p s) = gt_lastslot s"
  "gt_latestCompletedXid (GTM_TransactionInfo_Clean p s) = gt_latestCompletedXid s"
  "gt_nextXid (GTM_TransactionInfo_Clean p s) = gt_nextXid s"
  "ControlXid (GTM_TransactionInfo_Clean p s) = ControlXid s"
  "control_saves (GTM_TransactionInfo_Clean p s) = control_saves s"
  "length (gt_transactions_array (GTM_TransactionInfo_Clean p s)) = length (gt_transactions_array s)"
  by (simp_all add: GTM_TransactionInfo_Clean_def)

lemma slot_Clean:
  "slot (GTM_TransactionInfo_Clean p s) q =
     (if q = p \<and> p < length (gt_transactions_array s) then clean_slot (slot s p) else slot s q)"
  by (simp add: GTM_TransactionInfo_Clean_def slot_upd_slot) (simp add: slot_def)

lemma slot_open_update [simp]: "slot (s\<lparr>gt_open_transactions := ol\<rparr>) q = slot s q"
  by (simp add: slot_def)

lemma table_inv_remove_gen:
  assumes inv: "table_inv c s" and d: "distinct ol"
    and ol: "set ol = set (gt_open_transactions s) - {p}"
  shows "table_inv c (GTM_TransactionInfo_Clean p (note_completed g (s\<lparr>gt_open_transactions := ol\<rparr>)))"
    (is "table_inv c ?s'")
proof -
  have len: "length (gt_transactions_array s) = GTM_MAX_GLOBAL_TRANSACTIONS c"
    using inv by (rule inv_length)
  have op: "gt_open_transactions ?s' = ol" by simp
  have ls: "gt_lastslot ?s' = gt_lastslot s" by simp
  have sl: "\<And>q. q \<noteq> p \<Longrightarrow> slot ?s' q = slot s q"
    by (simp add: slot_Clean)
  have sp: "p < GTM_MAX_GLOBAL_TRANSACTIONS c \<Longrightarrow> \<not> gti_in_use (slot ?s' p)"
    using len by (simp add: slot_Clean clean_slot_def)
  show ?thesis
  proof (rule table_invI)
    show "length (gt_transactions_array ?s') = GTM_MAX_GLOBAL_TRANSACTIONS c"
      using len by simp
    show "distinct (gt_open_transactions ?s')" unfolding op by (rule d)
    show "- 1 \<le> gt_lastslot ?s'" "gt_lastslot ?s' < int (GTM_MAX_GLOBAL_TRANSACTIONS c)"
      unfolding ls using inv_lastslot[OF inv] by simp_all
    show "gt_lastslot ?s' = - 1 \<Longrightarrow> gt_open_transactions ?s' = []"
      unfolding ls op using inv_lastslot[OF inv] ol by simp
  next
    fix q assume "q \<in> set (gt_open_transactions ?s')"
    then have q: "q \<noteq> p" "q \<in> set (gt_open_transactions s)" unfolding op ol by auto
    show "q < GTM_MAX_GLOBAL_TRANSACTIONS c \<and> gti_in_use (slot ?s' q) \<and>
         gti_handle (slot ?s' q) = int q"
      using inv_open[OF inv q(2)] sl[OF q(1)] by simp
  next
    fix q assume q: "q < GTM_MAX_GLOBAL_TRANSACTIONS c" "gti_in_use (slot ?s' q)"
    then have ne: "q \<noteq> p" using sp by blast
    then have "gti_in_use (slot s q)" using q(2) sl by simp
    then have "q \<in> set (gt_open_transactions s)" using inv_in_use[OF inv q(1)] by simp
    then show "q \<in> set (gt_open_transactions ?s')" unfolding op ol using ne by simp
  next
    show "gid_unique ?s'"
      unfolding gid_unique_def
    proof (intro ballI impI)
      fix a b assume a: "a \<in> set (gt_open_transactions ?s')" and b: "b \<in> set (gt_open_transactions ?s')"
        and h: "gti_gid (slot ?s' a) \<noteq> None \<and> gti_gid (slot ?s' a) = gti_gid (slot ?s' b)"
      have ne: "a \<noteq> p" "b \<noteq> p" and m: "a \<in> set (gt_open_transactions s)" "b \<in> set (gt_open_transactions s)"
        using a b unfolding op ol by auto
      have e: "slot ?s' a = slot s a" "slot ?s' b = slot s b" using ne sl by auto
      from h[unfolded e] show "a = b" using gid_uniqueD'[OF inv_gid[OF inv] m] by blast
    qed
  qed
qed

lemma table_inv_remove:
  assumes inv: "table_inv c s"
  shows "table_inv c (GTM_TransactionInfo_Clean p (note_completed g
            (s\<lparr>gt_open_transactions := remove1 p (gt_open_transactions s)\<rparr>)))"
  using inv inv_distinct[OF inv] by (intro table_inv_remove_gen) simp_all

lemma GIDToHandle_miss:
  assumes inv: "table_inv c s" and miss: "GTM_GIDToHandle s gid = InvalidTransactionHandle"
    and q: "q \<in> set (gt_open_transactions s)"
  shows "gti_gid (slot s q) \<noteq> Some gid"
proof
  assume g: "gti_gid (slot s q) = Some gid"
  then have "find (\<lambda>p. gti_gid (slot s p) = Some gid) (gt_open_transactions s) \<noteq> None"
    using q by (auto simp: find_None_iff)
  then obtain r where r: "find (\<lambda>p. gti_gid (slot s p) = Some gid) (gt_open_transactions s) = Some r"
    by blast
  then have "r \<in> set (gt_open_transactions s)" using find_SomeD[OF r] by simp
  then have "gti_handle (slot s r) = int r" using inv_open[OF inv] by simp
  then show False using miss r by (simp add: GTM_GIDToHandle_def)
qed

lemma GIDToHandle_hit:
  assumes "GTM_GIDToHandle s gid \<noteq> InvalidTransactionHandle"
  shows "\<exists>q \<in> set (gt_open_transactions s). gti_gid (slot s q) = Some gid"
proof -
  obtain r where r: "find (\<lambda>p. gti_gid (slot s p) = Some gid) (gt_open_transactions s) = Some r"
    using assms by (auto simp: GTM_GIDToHandle_def split: option.splits)
  show ?thesis using find_SomeD[OF r] by blast
qed

lemma table_inv_set_gid:
  assumes inv: "table_inv c s"
    and miss: "\<And>q. q \<in> set (gt_open_transactions s) \<Longrightarrow> gti_gid (slot s q) \<noteq> Some gid"
    and f: "\<And>t. gti_in_use (f t) = gti_in_use t" "\<And>t. gti_handle (f t) = gti_handle t"
           "\<And>t. gti_gid (f t) = Some gid"
  shows "table_inv c (upd_slot p f s)" (is "table_inv c ?s'")
proof -
  have eq: "\<And>q. gti_in_use (slot ?s' q) = gti_in_use (slot s q)"
      "\<And>q. gti_handle (slot ?s' q) = gti_handle (slot s q)"
    using f by (simp_all add: slot_upd_slot)
  have g: "\<And>q. gti_gid (slot ?s' q) = gti_gid (slot s q) \<or> (q = p \<and> gti_gid (slot ?s' q) = Some gid)"
    using f by (simp add: slot_upd_slot)
  have gu: "gid_unique ?s'"
    unfolding gid_unique_def
  proof (intro ballI impI)
    fix a b assume a: "a \<in> set (gt_open_transactions ?s')" and b: "b \<in> set (gt_open_transactions ?s')"
      and h: "gti_gid (slot ?s' a) \<noteq> None \<and> gti_gid (slot ?s' a) = gti_gid (slot ?s' b)"
    have m: "a \<in> set (gt_open_transactions s)" "b \<in> set (gt_open_transactions s)"
      using a b by simp_all
    show "a = b"
      using g[of a] g[of b] h miss[OF m(1)] miss[OF m(2)]
        gid_uniqueD'[OF inv_gid[OF inv] m]
      by metis
  qed
  show ?thesis
  proof (rule table_invI)
    show "gid_unique ?s'" by (rule gu)
  qed (use inv_length[OF inv] inv_distinct[OF inv] inv_open[OF inv] inv_in_use[OF inv]
          inv_lastslot[OF inv] in \<open>simp_all add: eq\<close>)
qed


lemma result_inv_simps [simp]:
  "result_inv c (Inl (e, s)) = table_inv c s"
  "result_inv c (Inr (x, s)) = table_inv c s"
  by (simp_all add: result_inv_def)

lemma result_inv_bind:
  assumes "result_inv c r"
    and "\<And>x s. r = Inr (x, s) \<Longrightarrow> table_inv c s \<Longrightarrow> result_inv c (f x s)"
  shows "result_inv c (case r of Inl e \<Rightarrow> Inl e | Inr (x, s) \<Rightarrow> f x s)"
  using assms by (cases r) (auto simp: result_inv_def)

lemma table_inv_field_updates [simp]:
  "table_inv c (s\<lparr>gt_nextXid := a\<rparr>) = table_inv c s"
  "table_inv c (s\<lparr>ControlXid := a\<rparr>) = table_inv c s"
  "table_inv c (s\<lparr>control_saves := b\<rparr>) = table_inv c s"
  "table_inv c (s\<lparr>need_backup := d\<rparr>) = table_inv c s"
  "table_inv c (s\<lparr>gt_gtm_state := e\<rparr>) = table_inv c s"
  "table_inv c (s\<lparr>gt_latestCompletedXid := a\<rparr>) = table_inv c s"
  by (rule table_inv_frame; simp)+

lemma table_inv_SaveControlInfo [simp]: "table_inv c (SaveControlInfo s) = table_inv c s"
  by (simp add: SaveControlInfo_def)

lemma scan_slots_Inr:
  "scan_slots M arr ls ii n = Inr k \<Longrightarrow> k < length arr \<and> \<not> gti_in_use (arr ! k)"
  by (induction n arbitrary: ii) (auto split: if_splits)

lemma find_free_slot_Inr:
  "find_free_slot c s = Inr k \<Longrightarrow>
     k < length (gt_transactions_array s) \<and> \<not> gti_in_use (slot s k)"
  unfolding find_free_slot_def Let_def slot_def
  by (auto split: if_splits dest: scan_slots_Inr)

lemma begin_one_Inl: "begin_one c cid r s = Inl (e, s') \<Longrightarrow> s' = s"
  by (auto simp: begin_one_def Let_def split: if_splits sum.splits option.splits)

lemma begin_one_inv:
  assumes inv: "table_inv c s"
  shows "result_inv c (begin_one c cid r s)"
proof (cases "begin_one c cid r s")
  case (Inl a)
  then show ?thesis using begin_one_Inl[of c cid r s "fst a" "snd a"] inv by (cases a) simp
next
  case (Inr b)
  obtain txn s' where b: "b = (txn, s')" by (cases b)
  show ?thesis
  proof (cases "GTM_GlobalSessionIDToHandle c s (rq_global_sessionid r) \<noteq> InvalidTransactionHandle")
    case True
    then have "s' = s" using Inr b
      by (auto simp: begin_one_def Let_def split: sum.splits option.splits)
    then show ?thesis using Inr b inv by simp
  next
    case False
    then obtain ii where ii: "find_free_slot c s = Inr ii"
      and s': "s' = (GTM_TransactionInfo_Init c ii (int ii) (rq_isolevel r) cid
                     (rq_connid r) (rq_global_sessionid r) (rq_readonly r) s)
                  \<lparr>gt_lastslot := int ii,
                   gt_open_transactions := gt_open_transactions s @ [ii]\<rparr>"
      using Inr b by (auto simp: begin_one_def Let_def split: sum.splits)
    have "ii < GTM_MAX_GLOBAL_TRANSACTIONS c" "\<not> gti_in_use (slot s ii)"
      using find_free_slot_Inr[OF ii] inv_length[OF inv] by simp_all
    then show ?thesis using Inr b s' table_inv_alloc[OF inv] by simp
  qed
qed

lemma BeginMulti_inv:
  "table_inv c s \<Longrightarrow> result_inv c (GTM_BeginTransactionMulti c cid rs s)"
proof (induction rs arbitrary: s)
  case Nil
  then show ?case by simp
next
  case (Cons r rs)
  have "result_inv c (case begin_one c cid r s of Inl e \<Rightarrow> Inl e
          | Inr (txn, s1) \<Rightarrow>
            (case GTM_BeginTransactionMulti c cid rs s1 of Inl e \<Rightarrow> Inl e
               | Inr (txns, s2) \<Rightarrow> Inr (txn # txns, s2)))"
  proof (rule result_inv_bind[OF begin_one_inv[OF Cons.prems]])
    fix x s1 assume "table_inv c s1"
    from Cons.IH[OF this]
    show "result_inv c (case GTM_BeginTransactionMulti c cid rs s1 of Inl e \<Rightarrow> Inl e
               | Inr (txns, s2) \<Rightarrow> Inr (x # txns, s2))"
      by (rule result_inv_bind) simp
  qed
  then show ?case by simp
qed


lemma assign_gxids_inv:
  "table_inv c s \<Longrightarrow> result_inv c (assign_gxids c hs xid s)"
proof (induction hs arbitrary: s xid)
  case Nil
  then show ?case by simp
next
  case (Cons h hs)
  show ?case
  proof (cases "GTM_HandleToTransactionInfo c s h")
    case (Inl e)
    then show ?thesis using Cons.prems by simp
  next
    case (Inr po)
    show ?thesis
    proof (cases po)
      case None
      then show ?thesis using Inr Cons.prems by simp
    next
      case (Some p)
      let ?s1 = "upd_slot p (\<lambda>t. t\<lparr>gti_gxid := gt_nextXid s\<rparr>)
                          (s\<lparr>gt_nextXid := GlobalTransactionIdAdvance (gt_nextXid s)\<rparr>)"
      have i1: "table_inv c ?s1"
        by (rule table_inv_upd_slot) (use Cons.prems in simp_all)
      have a: "result_inv c (case assign_gxids c hs xid s of Inl x \<Rightarrow> Inl x
             | Inr ((xid', gxids, new_handles), s') \<Rightarrow>
                 Inr ((xid', gti_gxid (slot s p) # gxids, new_handles), s'))"
        by (rule result_inv_bind[OF Cons.IH[OF Cons.prems]]) (simp split: prod.splits)
      have b: "result_inv c (case assign_gxids c hs (gt_nextXid s) ?s1 of Inl e \<Rightarrow> Inl e
                | Inr ((xid', gxids, new_handles), s') \<Rightarrow>
                    Inr ((xid', gt_nextXid s # gxids, gti_handle (slot s p) # new_handles), s'))"
        by (rule result_inv_bind[OF Cons.IH[OF i1]]) (simp split: prod.splits)
      show ?thesis using Inr Some a b Cons.prems by (simp add: Let_def)
    qed
  qed
qed

lemma GetGXIDMulti_inv:
  assumes "table_inv c s"
  shows "result_inv c (GTM_GetGlobalTransactionIdMulti c sb hs s)"
proof -
  have "result_inv c (case assign_gxids c hs InvalidGlobalTransactionId s of
             Inl e \<Rightarrow> Inl e
           | Inr ((xid, gxids, new_handles), s1) \<Rightarrow>
               (let save_control = save_control_due c xid s1;
                    s2 = (if save_control then s1\<lparr>ControlXid := xid\<rparr> else s1);
                    s3 = (if GTM_NeedXidRestoreUpdate s2 then s2\<lparr>need_backup := True\<rparr> else s2);
                    s4 = (if save_control then SaveControlInfo s3 else s3)
                in Inr ((gxids, new_handles), s4)))"
    by (rule result_inv_bind[OF assign_gxids_inv[OF assms]]) (simp add: Let_def split: prod.splits)
  then show ?thesis using assms by (simp add: GTM_GetGlobalTransactionIdMulti_def)
qed


lemma rollback_mark_inv:
  "table_inv c s \<Longrightarrow> result_inv c (rollback_mark c hs s)"
proof (induction hs arbitrary: s)
  case Nil
  then show ?case by simp
next
  case (Cons h hs)
  show ?case
  proof (cases "GTM_HandleToTransactionInfo c s h")
    case (Inl e)
    then show ?thesis using Cons.prems by simp
  next
    case (Inr po)
    show ?thesis
    proof (cases po)
      case None
      have "result_inv c (case rollback_mark c hs s of Inl e \<Rightarrow> Inl e
           | Inr ((ps, sts), s') \<Rightarrow> Inr ((None # ps, STATUS_ERROR # sts), s'))"
        by (rule result_inv_bind[OF Cons.IH[OF Cons.prems]]) (simp split: prod.splits)
      then show ?thesis using Inr None by simp
    next
      case (Some p)
      let ?s1 = "upd_slot p (\<lambda>t. t\<lparr>gti_state := GTM_TXN_ABORT_IN_PROGRESS\<rparr>) s"
      have i1: "table_inv c ?s1"
        by (rule table_inv_upd_slot) (use Cons.prems in simp_all)
      have "result_inv c (case rollback_mark c hs ?s1 of Inl e \<Rightarrow> Inl e
           | Inr ((ps, sts), s') \<Rightarrow> Inr ((Some p # ps, STATUS_OK # sts), s'))"
        by (rule result_inv_bind[OF Cons.IH[OF i1]]) (simp split: prod.splits)
      then show ?thesis using Inr Some by simp
    qed
  qed
qed

lemma commit_mark_inv:
  "table_inv c s \<Longrightarrow> result_inv c (commit_mark c hs ws s)"
proof (induction hs arbitrary: s)
  case Nil
  then show ?case by simp
next
  case (Cons h hs)
  show ?case
  proof (cases "GTM_HandleToTransactionInfo c s h")
    case (Inl e)
    then show ?thesis using Cons.prems by simp
  next
    case (Inr po)
    show ?thesis
    proof (cases po)
      case None
      have "result_inv c (case commit_mark c hs ws s of Inl e \<Rightarrow> Inl e
           | Inr ((ps, sts), s') \<Rightarrow> Inr ((ps, STATUS_ERROR # sts), s'))"
        by (rule result_inv_bind[OF Cons.IH[OF Cons.prems]]) (simp split: prod.splits)
      then show ?thesis using Inr None by simp
    next
      case (Some p)
      let ?s1 = "upd_slot p (\<lambda>t. t\<lparr>gti_state := GTM_TXN_COMMIT_IN_PROGRESS\<rparr>) s"
      have i1: "table_inv c ?s1"
        by (rule table_inv_upd_slot) (use Cons.prems in simp_all)
      have a: "result_inv c (case commit_mark c hs ws s of Inl e \<Rightarrow> Inl e
           | Inr ((ps, sts), s') \<Rightarrow> Inr ((ps, STATUS_DELAYED # sts), s'))"
        by (rule result_inv_bind[OF Cons.IH[OF Cons.prems]]) (simp split: prod.splits)
      have b: "result_inv c (case commit_mark c hs ws ?s1 of Inl e \<Rightarrow> Inl e
           | Inr ((ps, sts), s') \<Rightarrow> Inr ((Some p # ps, STATUS_OK # sts), s'))"
        by (rule result_inv_bind[OF Cons.IH[OF i1]]) (simp split: prod.splits)
      show ?thesis using Inr Some a b by simp
    qed
  qed
qed

lemma RemoveTransInfoMulti_inv:
  "table_inv c s \<Longrightarrow> table_inv c (GTM_RemoveTransInfoMulti ps s)"
proof (induction ps s rule: GTM_RemoveTransInfoMulti.induct)
  case (3 p ps s)
  show ?case using "3.IH"[OF table_inv_remove[OF "3.prems"]] by simp
qed simp_all

lemma Rollback_inv:
  assumes "table_inv c s"
  shows "result_inv c (GTM_RollbackTransactionMulti c hs s)"
  unfolding GTM_RollbackTransactionMulti_def
  by (rule result_inv_bind[OF rollback_mark_inv[OF assms]])
     (simp split: prod.splits add: RemoveTransInfoMulti_inv)

lemma Commit_inv:
  assumes "table_inv c s"
  shows "result_inv c (GTM_CommitTransactionMulti c hs ws s)"
  unfolding GTM_CommitTransactionMulti_def
  by (rule result_inv_bind[OF commit_mark_inv[OF assms]])
     (simp split: prod.splits add: RemoveTransInfoMulti_inv)

lemma reap_walk_inv:
  "table_inv c s \<Longrightarrow> gt_open_transactions s = kept @ cells \<Longrightarrow>
   table_inv c (reap_walk cid bid kept cells s)"
proof (induction cells arbitrary: kept s)
  case Nil
  then show ?case by simp
next
  case (Cons p cells)
  show ?case
  proof (cases "reap_match cid bid (slot s p)")
    case True
    let ?s1 = "GTM_TransactionInfo_Clean p
            (note_completed (gti_gxid (slot s p))
              (s\<lparr>gt_open_transactions := kept @ cells\<rparr>))"
    have d: "distinct (kept @ p # cells)" using inv_distinct[OF Cons.prems(1)] Cons.prems(2) by simp
    have i1: "table_inv c ?s1"
      by (rule table_inv_remove_gen[OF Cons.prems(1)]) (use d Cons.prems(2) in auto)
    have "gt_open_transactions ?s1 = kept @ cells" by simp
    from Cons.IH[OF i1 this] show ?thesis using True by simp
  next
    case False
    have "gt_open_transactions s = (kept @ [p]) @ cells" using Cons.prems(2) by simp
    from Cons.IH[OF Cons.prems(1) this] show ?thesis using False by simp
  qed
qed

lemma Reap_inv: "table_inv c s \<Longrightarrow> table_inv c (GTM_RemoveAllTransInfos cid bid s)"
  unfolding GTM_RemoveAllTransInfos_def by (rule reap_walk_inv) simp_all

lemma Prepare_inv:
  assumes "table_inv c s"
  shows "result_inv c (GTM_PrepareTransaction ac c h s)"
proof -
  have "\<And>p. table_inv c (upd_slot p (\<lambda>t. t\<lparr>gti_state := GTM_TXN_PREPARED\<rparr>) s)"
    by (rule table_inv_upd_slot) (use assms in simp_all)
  then show ?thesis using assms
    by (simp add: GTM_PrepareTransaction_def Let_def split: sum.splits option.splits)
qed

lemma StartPrepared_inv:
  assumes "table_inv c s"
  shows "result_inv c (GTM_StartPreparedTransaction c h gid nodes s)"
proof -
  have "\<And>p. GTM_GIDToHandle s gid = InvalidTransactionHandle \<Longrightarrow>
     table_inv c (upd_slot p (\<lambda>t. t\<lparr>gti_state := GTM_TXN_PREPARE_IN_PROGRESS,
                                       nodestring := Some nodes,
                                       gti_gid := Some gid\<rparr>) s)"
    by (rule table_inv_set_gid[OF assms]) (use GIDToHandle_miss[OF assms] in simp_all)
  moreover have "\<And>p. table_inv c (upd_slot p (\<lambda>t. t\<lparr>gti_state := GTM_TXN_PREPARE_IN_PROGRESS\<rparr>) s)"
    by (rule table_inv_upd_slot) (use assms in simp_all)
  moreover have "\<And>p. table_inv c (upd_slot p (\<lambda>t. t\<lparr>gti_state := GTM_TXN_PREPARE_IN_PROGRESS,
                                                     nodestring := Some nodes\<rparr>) s)"
    by (rule table_inv_upd_slot) (use assms in simp_all)
  ultimately show ?thesis using assms
    by (simp add: GTM_StartPreparedTransaction_def split: sum.splits option.splits)
qed

lemma bkup_advance_fields [simp]:
  "gt_transactions_array (bkup_advance g s) = gt_transactions_array s"
  "gt_open_transactions (bkup_advance g s) = gt_open_transactions s"
  "gt_lastslot (bkup_advance g s) = gt_lastslot s"
  "ControlXid (bkup_advance g s) = ControlXid s"
  "control_saves (bkup_advance g s) = control_saves s"
  by (simp_all add: bkup_advance_def Let_def)

lemma table_inv_bkup_advance [simp]: "table_inv c (bkup_advance g s) = table_inv c s"
  by (rule table_inv_frame) simp_all

lemma bkup_assign_inv:
  "table_inv c s \<Longrightarrow> result_inv c (bkup_assign c rs txns xid s)"
proof (induction c rs txns xid s rule: bkup_assign.induct)
  case (1 c gxid r rs txn txns xid s)
  show ?case
  proof (cases "GTM_HandleToTransactionInfo c s txn")
    case (Inl e)
    then show ?thesis using "1.prems" by simp
  next
    case (Inr po)
    show ?thesis
    proof (cases po)
      case None
      then show ?thesis using Inr "1.prems" by simp
    next
      case (Some p)
      let ?s1 = "upd_slot p (\<lambda>t. t\<lparr>gti_gxid := gxid\<rparr>) s"
      let ?s2 = "(case rq_global_sessionid r of
                       Some sid \<Rightarrow>
                         upd_slot p (\<lambda>t. t\<lparr>gti_global_session_id :=
                                              take (GTM_MAX_SESSION_ID_LEN c) sid\<rparr>) ?s1
                     | None \<Rightarrow> ?s1)"
      let ?s3 = "bkup_advance gxid ?s2"
      have i1: "table_inv c ?s1"
        by (rule table_inv_upd_slot) (use "1.prems" in simp_all)
      have i2: "table_inv c ?s2"
      proof (cases "rq_global_sessionid r")
        case None then show ?thesis using i1 by simp
      next
        case (Some sid)
        have "table_inv c (upd_slot p (\<lambda>t. t\<lparr>gti_global_session_id :=
                                              take (GTM_MAX_SESSION_ID_LEN c) sid\<rparr>) ?s1)"
          by (rule table_inv_upd_slot) (use i1 in simp_all)
        then show ?thesis using Some by simp
      qed
      have i3: "table_inv c ?s3" using i2 by simp
      have "result_inv c (bkup_assign c rs txns (gt_nextXid ?s3) ?s3)"
        using "1.IH"[OF Inr Some refl refl refl i3] .
      then show ?thesis using Inr Some by (simp add: Let_def)
    qed
  qed
qed simp_all

lemma Bkup_inv:
  assumes "table_inv c s"
  shows "result_inv c (GTM_BkupBeginTransactionGetGXIDMulti c cid reqs s)"
  unfolding GTM_BkupBeginTransactionGetGXIDMulti_def
proof (rule result_inv_bind[OF BeginMulti_inv[OF assms]])
  fix txn s1 assume "table_inv c s1"
  show "result_inv c (case bkup_assign c reqs txn InvalidGlobalTransactionId s1 of
             Inl e \<Rightarrow> Inl e
           | Inr (xid, s2) \<Rightarrow>
               (let save_control = save_control_due c xid s2;
                    s3 = (if save_control then s2\<lparr>ControlXid := xid\<rparr> else s2);
                    s4 = (if save_control then SaveControlInfo s3 else s3)
                in Inr ((), s4)))"
    by (rule result_inv_bind[OF bkup_assign_inv[OF \<open>table_inv c s1\<close>]]) (simp add: Let_def)
qed

lemma exec_inv:
  assumes "table_inv c s"
  shows "case exec c op s of Inl (e, s') \<Rightarrow> table_inv c s' | Inr s' \<Rightarrow> table_inv c s'"
proof -
  have st: "\<And>r. result_inv c r \<Longrightarrow>
     (case state_of r of Inl (e, s') \<Rightarrow> table_inv c s' | Inr s' \<Rightarrow> table_inv c s')"
    by (auto simp: state_of_def result_inv_def split: sum.splits)
  show ?thesis
  proof (cases op)
    case (Op_Begin cid rs)
    then show ?thesis using st[OF BeginMulti_inv[OF assms]] by simp
  next
    case (Op_GetGXID sb hs)
    then show ?thesis using st[OF GetGXIDMulti_inv[OF assms]] by simp
  next
    case (Op_Commit hs ws)
    then show ?thesis using st[OF Commit_inv[OF assms]] by simp
  next
    case (Op_Rollback hs)
    then show ?thesis using st[OF Rollback_inv[OF assms]] by simp
  next
    case (Op_StartPrepared h gid nodes)
    then show ?thesis using st[OF StartPrepared_inv[OF assms]] by simp
  next
    case (Op_Prepare ac h)
    then show ?thesis using st[OF Prepare_inv[OF assms]] by simp
  next
    case (Op_Reap cid bid)
    then show ?thesis using Reap_inv[OF assms] by simp
  next
    case (Op_BkupBeginGetGXID cid rs)
    then show ?thesis using st[OF Bkup_inv[OF assms]] by simp
  next
    case (Op_SetNextXid g)
    then show ?thesis using assms by (simp add: GTM_SetNextGlobalTransactionId_def)
  next
    case (Op_SetControlXid g)
    then show ?thesis using assms by (simp add: GTM_SetControlXid_def)
  next
    case Op_SetShuttingDown
    then show ?thesis using assms by (simp add: GTM_SetShuttingDown_def)
  qed
qed

lemma reachable_inv: "reachable c s \<Longrightarrow> table_inv c s"
proof (induction rule: reachable.induct)
  case reachable_init
  show ?case by (rule table_inv_init)
next
  case (reachable_step s op s')
  then show ?case using exec_inv[of c s op] by simp
next
  case (reachable_error s op e s')
  then show ?case using exec_inv[of c s op] by simp
qed

lemma reachable_run: "reachable c s \<Longrightarrow> reachable c (run c ops s)"
proof (induction ops arbitrary: s)
  case Nil
  then show ?case by simp
next
  case (Cons op ops)
  show ?case
  proof (cases "exec c op s")
    case (Inl a)
    obtain e s' where a: "a = (e, s')" by (cases a)
    show ?thesis
    proof (cases "is_fault e")
      case True
      then show ?thesis using Inl a Cons.prems by simp
    next
      case False
      have "reachable c s'" using reachable_error[OF Cons.prems _ False] Inl a by simp
      from Cons.IH[OF this] show ?thesis using Inl a False by simp
    qed
  next
    case (Inr s')
    have "reachable c s'" using reachable_step[OF Cons.prems Inr] .
    from Cons.IH[OF this] show ?thesis using Inr by simp
  qed
qed

lemma reachable_one_open: "reachable small one_open"
  unfolding one_open_def by (rule reachable_run[OF reachable_init])

lemma reachable_both_open: "reachable small both_open"
  unfolding both_open_def by (rule reachable_run[OF reachable_init])

lemma valid_handleD:
  "valid_handle c s h \<Longrightarrow>
     0 \<le> h \<and> h \<le> int (GTM_MAX_GLOBAL_TRANSACTIONS c) \<and>
     nat h < GTM_MAX_GLOBAL_TRANSACTIONS c \<and> gti_in_use (slot s (nat h))"
  unfolding valid_handle_def by auto

lemma valid_handle_lookup:
  "length (gt_transactions_array s) = GTM_MAX_GLOBAL_TRANSACTIONS c \<Longrightarrow> valid_handle c s h \<Longrightarrow>
   GTM_HandleToTransactionInfo c s h = Inr (Some (nat h))"
  using valid_handleD[of c s h] by (simp add: handle_lookup_Some)

subsection \<open>Handle lookup at the end of the array\<close>

text \<open>
  Claim C5. The lookup is to answer "invalid handle" for every handle outside
  \<open>[0, MAX - 1]\<close> and is never to index the slot array out of range. The range test of
  the code is \<^verbatim>\<open>handle > GTM_MAX_GLOBAL_TRANSACTIONS\<close>, so the handle equal to the
  size of the array passes it and the slot one past the end is read: on the initial
  table with two slots, the lookup of handle 2 is an out-of-bounds read, not a
  \<^verbatim>\<open>NULL\<close> result.
\<close>

theorem C5_handle_equal_to_array_size_is_read:
  "GTM_HandleToTransactionInfo small (GTM_InitTxnManager small) 2 = Inl ArrayOutOfBounds"
  by (simp add: GTM_HandleToTransactionInfo_def small_def GTM_InitTxnManager_def)

subsection \<open>Prepare\<close>

text \<open>
  Claim C10. Prepare makes no test of the state of the slot. For a handle whose slot is
  in use, whatever the state, the state becomes \<open>GTM_TXN_PREPARED\<close> and the result is
  \<open>STATUS_OK\<close>; with assertions compiled in, a state other than
  \<open>GTM_TXN_PREPARE_IN_PROGRESS\<close> fails the assertion, and the table it leaves already
  has the new state. \<open>STATUS_ERROR\<close> is returned only for a handle out of range or a
  slot that is not in use, and then the table is unchanged.
\<close>

theorem C10_prepare_checks_no_state:
  assumes "length (gt_transactions_array s) = GTM_MAX_GLOBAL_TRANSACTIONS c"
  shows "(valid_handle c s h \<longrightarrow>
            GTM_PrepareTransaction False c h s =
              Inr (STATUS_OK, upd_slot (nat h) (\<lambda>t. t\<lparr>gti_state := GTM_TXN_PREPARED\<rparr>) s) \<and>
            GTM_PrepareTransaction True c h s =
              (if gti_state (slot s (nat h)) = GTM_TXN_PREPARE_IN_PROGRESS
               then Inr (STATUS_OK, upd_slot (nat h) (\<lambda>t. t\<lparr>gti_state := GTM_TXN_PREPARED\<rparr>) s)
               else Inl (AssertionFailed,
                         upd_slot (nat h) (\<lambda>t. t\<lparr>gti_state := GTM_TXN_PREPARED\<rparr>) s)) \<and>
            gti_state (slot (upd_slot (nat h) (\<lambda>t. t\<lparr>gti_state := GTM_TXN_PREPARED\<rparr>) s) (nat h))
              = GTM_TXN_PREPARED) \<and>
         (\<forall>ac s'. GTM_PrepareTransaction ac c h s = Inr (STATUS_ERROR, s') \<longrightarrow>
            s' = s \<and>
            (h < 0 \<or> int (GTM_MAX_GLOBAL_TRANSACTIONS c) < h \<or> \<not> gti_in_use (slot s (nat h))))"
proof -
  have a: "valid_handle c s h \<Longrightarrow> GTM_HandleToTransactionInfo c s h = Inr (Some (nat h))"
    using assms by (rule valid_handle_lookup)
  have b: "valid_handle c s h \<Longrightarrow>
     gti_state (slot (upd_slot (nat h) (\<lambda>t. t\<lparr>gti_state := GTM_TXN_PREPARED\<rparr>) s) (nat h))
              = GTM_TXN_PREPARED"
    using assms valid_handleD[of c s h] by (simp add: slot_upd_slot)
  have d: "\<And>ac s'. GTM_PrepareTransaction ac c h s = Inr (STATUS_ERROR, s') \<Longrightarrow>
            s' = s \<and> GTM_HandleToTransactionInfo c s h = Inr None"
    by (auto simp: GTM_PrepareTransaction_def Let_def split: sum.splits option.splits if_splits)
  show ?thesis
    using a b d by (auto simp: GTM_PrepareTransaction_def Let_def handle_lookup_None)
qed

theorem C10_prepare_checks_no_state_witness:
  "valid_handle small one_open 0 \<and>
   gti_state (slot one_open 0) = GTM_TXN_STARTING \<and>
   GTM_PrepareTransaction False small 0 one_open =
      Inr (STATUS_OK, upd_slot 0 (\<lambda>t. t\<lparr>gti_state := GTM_TXN_PREPARED\<rparr>) one_open) \<and>
   GTM_PrepareTransaction True small 0 one_open =
      Inl (AssertionFailed, upd_slot 0 (\<lambda>t. t\<lparr>gti_state := GTM_TXN_PREPARED\<rparr>) one_open)"
proof -
  have l: "length (gt_transactions_array one_open) = GTM_MAX_GLOBAL_TRANSACTIONS small"
    unfolding one_open_def by code_simp
  have v: "valid_handle small one_open 0" unfolding one_open_def by code_simp
  have st: "gti_state (slot one_open 0) = GTM_TXN_STARTING" unfolding one_open_def by code_simp
  show ?thesis using C10_prepare_checks_no_state[OF l, of 0] v st by simp
qed

subsection \<open>The control checkpoint and the next GXID of the standby\<close>

lemma assign_gxids_control:
  "assign_gxids c hs xid s = Inr ((x, gs, nh), s1) \<Longrightarrow>
     ControlXid s1 = ControlXid s \<and> control_saves s1 = control_saves s \<and>
     gt_gtm_state s1 = gt_gtm_state s"
proof (induction hs arbitrary: xid s x gs nh)
  case Nil
  then show ?case by simp
next
  case (Cons h hs)
  from Cons.prems show ?case
    by (auto simp: Let_def split: sum.splits option.splits if_splits prod.splits
             dest!: Cons.IH)
qed

lemma assign_gxids_last:
  "assign_gxids c hs xid s = Inr ((x, gs, nh), s1) \<Longrightarrow>
     (nh = [] \<longrightarrow> x = xid \<and> gt_nextXid s1 = gt_nextXid s) \<and>
     (nh \<noteq> [] \<longrightarrow> gt_nextXid s1 = GlobalTransactionIdAdvance x \<and> x \<in> set gs)"
proof (induction hs arbitrary: xid s x gs nh)
  case Nil
  then show ?case by simp
next
  case (Cons h hs)
  from Cons.prems show ?case
    by (auto simp: Let_def split: sum.splits option.splits if_splits prod.splits
             dest!: Cons.IH)
qed

text \<open>
  Claim C3, as stated, at a concrete table. The control GXID is 3, the interval is 8
  and the GXID assigned is 11, so that \<open>xid - control_gxid\<close> equals the interval. The
  claim has the checkpoint written here; the code writes none and keeps the control
  GXID, because its test is \<^verbatim>\<open>xid - ControlXid > CONTROL_INTERVAL\<close>.
\<close>

theorem C3_control_checkpoint_counterexample:
  "CONTROL_INTERVAL small \<le> 11 - ControlXid at_interval \<and>
   (case GTM_GetGlobalTransactionIdMulti small False [0] at_interval of
      Inr ((gxids, new_handles), s') \<Rightarrow>
        gxids = [11] \<and> new_handles = [0] \<and>
        ControlXid s' = ControlXid at_interval \<and> control_saves s' = control_saves at_interval
    | Inl e \<Rightarrow> False)"
  unfolding at_interval_def by code_simp

text \<open>
  Claim C3, amended. When the generator has assigned GXIDs, the last of them \<open>xid\<close>,
  it sets the control GXID to \<open>xid\<close> and writes the control file exactly when \<open>xid\<close>
  is valid and \<open>xid - control_gxid\<close> (32-bit, wrapping) is strictly greater than
  \<open>CONTROL_INTERVAL\<close>, or \<open>xid < control_gxid\<close>; otherwise the control GXID and the
  control file are left as they are.
\<close>

theorem C3_control_checkpoint:
  assumes "assign_gxids c handles InvalidGlobalTransactionId s = Inr ((xid, gxids, new_handles), s1)"
    and "new_handles \<noteq> []" and "gt_gtm_state s \<noteq> GTM_SHUTTING_DOWN"
  shows "\<exists>s'. GTM_GetGlobalTransactionIdMulti c False handles s = Inr ((gxids, new_handles), s') \<and>
           gt_nextXid s' = GlobalTransactionIdAdvance xid \<and> xid \<in> set gxids \<and>
           (if GlobalTransactionIdIsValid xid \<and>
               (CONTROL_INTERVAL c < xid - ControlXid s \<or> xid < ControlXid s)
            then ControlXid s' = xid \<and> control_saves s' = control_saves s @ [xid]
            else ControlXid s' = ControlXid s \<and> control_saves s' = control_saves s)"
proof -
  note a = assign_gxids_control[OF assms(1)] and b = assign_gxids_last[OF assms(1)]
  show ?thesis
    using assms a b
    by (auto simp: GTM_GetGlobalTransactionIdMulti_def Let_def save_control_due_def
          SaveControlInfo_def)
qed

theorem C3_control_checkpoint_witness:
  "\<exists>s'. GTM_GetGlobalTransactionIdMulti small False [0] past_interval = Inr (([12], [0]), s') \<and>
         gt_nextXid s' = 13 \<and> ControlXid past_interval = 3 \<and>
         ControlXid s' = 12 \<and> control_saves s' = [12]"
proof -
  have h: "assign_gxids small [0] InvalidGlobalTransactionId past_interval =
        Inr ((12, [12], [0]), snd (projr (assign_gxids small [0] InvalidGlobalTransactionId past_interval)))"
    unfolding past_interval_def by code_simp
  have n: "[0::int] \<noteq> []" by simp
  have g: "gt_gtm_state past_interval \<noteq> GTM_SHUTTING_DOWN"
    unfolding past_interval_def by code_simp
  have k: "ControlXid past_interval = 3" "control_saves past_interval = []"
    "CONTROL_INTERVAL small = 8"
    unfolding past_interval_def by code_simp+
  show ?thesis
    using C3_control_checkpoint[OF h n g] k
    by (simp add: GlobalTransactionIdAdvance_def GlobalTransactionIdIsValid_def)
qed







subsection \<open>The latest completed GXID\<close>

lemma follows_antisym:
  assumes "GlobalTransactionIdFollowsOrEquals a b" "GlobalTransactionIdFollowsOrEquals b a"
  shows "a = b"
proof -
  define x where "x = a - b"
  have 1: "0 \<le> sint x" using assms(1) by (simp add: GlobalTransactionIdFollowsOrEquals_def x_def)
  have "b - a = - x" by (simp add: x_def)
  then have 2: "0 \<le> sint (- x)" using assms(2) by (simp add: GlobalTransactionIdFollowsOrEquals_def)
  have r: "- (2 ^ 31) \<le> - sint x" "- sint x < 2 ^ 31"
    using sint_lt[of x] 1 by simp_all
  have "sint (- x) = signed_take_bit 31 (- sint x)" by (simp add: sint_word_ariths)
  also have "\<dots> = - sint x" using r by (simp add: signed_take_bit_int_eq_self)
  finally have "sint x = 0" using 1 2 by simp
  then have "sint x = sint (0 :: 32 word)" by simp
  then have "x = 0" by (rule signed_word_eqI)
  then show ?thesis by (simp add: x_def)
qed

lemma follows_refl: "GlobalTransactionIdFollowsOrEquals a a"
  by (simp add: GlobalTransactionIdFollowsOrEquals_def)

lemma modular_max_greatest:
  "m \<in> insert a (set gs) \<Longrightarrow> \<forall>x \<in> insert a (set gs). GlobalTransactionIdFollowsOrEquals m x \<Longrightarrow>
   modular_max a gs = m"
proof (induction gs arbitrary: a)
  case Nil
  then show ?case by (simp add: modular_max_def)
next
  case (Cons g gs)
  have ma: "GlobalTransactionIdFollowsOrEquals m a" and mg: "GlobalTransactionIdFollowsOrEquals m g"
    using Cons.prems(2) by simp_all
  have 1: "m \<in> insert (gxid_max a g) (set gs)"
  proof (cases "m \<in> set gs")
    case True then show ?thesis by simp
  next
    case False
    then have "m = a \<or> m = g" using Cons.prems(1) by auto
    then show ?thesis
    proof
      assume "m = g" then show ?thesis using ma by (simp add: gxid_max_def)
    next
      assume e: "m = a"
      show ?thesis
      proof (cases "GlobalTransactionIdFollowsOrEquals g a")
        case True
        then have "g = a" using mg e follows_antisym by blast
        then show ?thesis using e by (simp add: gxid_max_def)
      next
        case False then show ?thesis using e by (simp add: gxid_max_def)
      qed
    qed
  qed
  have 2: "\<forall>x \<in> insert (gxid_max a g) (set gs). GlobalTransactionIdFollowsOrEquals m x"
    using Cons.prems(2) by (auto simp: gxid_max_def)
  have "modular_max a (g # gs) = modular_max (gxid_max a g) gs" by (simp add: modular_max_def)
  then show ?case using Cons.IH[OF 1 2] by simp
qed

lemma normal_gxids_cong:
  "(\<And>q. q \<in> set ps \<Longrightarrow> gti_gxid (slot s' q) = gti_gxid (slot s q)) \<Longrightarrow>
   normal_gxids s' ps = normal_gxids s ps"
  unfolding normal_gxids_def by (simp cong: map_cong)

lemma latest_note_completed:
  "gt_latestCompletedXid (note_completed g s) =
     (if GlobalTransactionIdIsNormal g then gxid_max (gt_latestCompletedXid s) g
      else gt_latestCompletedXid s)"
  by (simp add: note_completed_def gxid_max_def)

lemma modular_max_Cons: "modular_max a (g # gs) = modular_max (gxid_max a g) gs"
  by (simp add: modular_max_def)

lemma gxid_remove_step:
  "gti_gxid (slot (GTM_TransactionInfo_Clean p (note_completed g (s\<lparr>gt_open_transactions := ol\<rparr>))) q)
     = gti_gxid (slot s q)"
  by (simp add: slot_Clean clean_slot_def)

lemma remove_pass_latest:
  "gt_latestCompletedXid (GTM_RemoveTransInfoMulti ps s) =
     modular_max (gt_latestCompletedXid s) (normal_gxids s (non_null ps))"
proof (induction ps s rule: GTM_RemoveTransInfoMulti.induct)
  case (1 s)
  show ?case by (simp add: non_null_def normal_gxids_def modular_max_def)
next
  case (2 ps s)
  then show ?case by (simp add: non_null_def)
next
  case (3 p ps s)
  let ?s1 = "GTM_TransactionInfo_Clean p
         (note_completed (gti_gxid (slot s p))
           (s\<lparr>gt_open_transactions := remove1 p (gt_open_transactions s)\<rparr>))"
  have e: "normal_gxids ?s1 (non_null ps) = normal_gxids s (non_null ps)"
    by (rule normal_gxids_cong) (rule gxid_remove_step)
  have l: "gt_latestCompletedXid ?s1 =
     (if GlobalTransactionIdIsNormal (gti_gxid (slot s p))
      then gxid_max (gt_latestCompletedXid s) (gti_gxid (slot s p))
      else gt_latestCompletedXid s)"
    by (simp add: latest_note_completed)
  have n: "non_null (Some p # ps) = p # non_null ps" by (simp add: non_null_def)
  show ?case
    using "3.IH" unfolding e l n
    by (simp add: normal_gxids_def modular_max_Cons)
qed

lemma reap_walk_latest:
  "distinct cells \<Longrightarrow>
   gt_latestCompletedXid (reap_walk cid bid kept cells s) =
     modular_max (gt_latestCompletedXid s)
       (normal_gxids s (filter (\<lambda>p. reap_match cid bid (slot s p)) cells))"
proof (induction cells arbitrary: kept s)
  case Nil
  show ?case by (simp add: normal_gxids_def modular_max_def)
next
  case (Cons p cells)
  have d: "distinct cells" "p \<notin> set cells" using Cons.prems by simp_all
  show ?case
  proof (cases "reap_match cid bid (slot s p)")
    case True
    let ?s1 = "GTM_TransactionInfo_Clean p
            (note_completed (gti_gxid (slot s p))
              (s\<lparr>gt_open_transactions := kept @ cells\<rparr>))"
    have sl: "\<And>q. q \<in> set cells \<Longrightarrow> slot ?s1 q = slot s q"
      using d(2) by (auto simp: slot_Clean)
    have f: "filter (\<lambda>q. reap_match cid bid (slot ?s1 q)) cells =
             filter (\<lambda>q. reap_match cid bid (slot s q)) cells"
      by (rule filter_cong) (simp_all add: sl)
    have e: "normal_gxids ?s1 (filter (\<lambda>q. reap_match cid bid (slot s q)) cells) =
             normal_gxids s (filter (\<lambda>q. reap_match cid bid (slot s q)) cells)"
      by (rule normal_gxids_cong) (rule gxid_remove_step)
    have l: "gt_latestCompletedXid ?s1 =
     (if GlobalTransactionIdIsNormal (gti_gxid (slot s p))
      then gxid_max (gt_latestCompletedXid s) (gti_gxid (slot s p))
      else gt_latestCompletedXid s)"
      by (simp add: latest_note_completed)
    show ?thesis
      using Cons.IH[OF d(1), of kept ?s1] True unfolding f e l
      by (simp add: normal_gxids_def modular_max_Cons)
  next
    case False
    then show ?thesis using Cons.IH[OF d(1), of "kept @ [p]" s] by simp
  qed
qed

text \<open>
  Claim C2. After the removal pass of commit and rollback, and after a reap, the latest
  completed GXID is the modular maximum of its previous value and the normal GXIDs of
  the removed slots; a slot whose GXID is not normal (none was assigned) contributes
  nothing. The modular maximum is taken pairwise in the order of removal, and whenever
  one of the values follows or equals all the others, it is that value.
\<close>

theorem C2_latest_completed_is_modular_max:
  "(gt_latestCompletedXid (GTM_RemoveTransInfoMulti ps s) =
      modular_max (gt_latestCompletedXid s) (normal_gxids s (non_null ps))) \<and>
   (distinct (gt_open_transactions s) \<longrightarrow>
      gt_latestCompletedXid (GTM_RemoveAllTransInfos cid bid s) =
        modular_max (gt_latestCompletedXid s)
          (normal_gxids s (filter (\<lambda>p. reap_match cid bid (slot s p)) (gt_open_transactions s)))) \<and>
   (\<forall>m gs. m \<in> insert (gt_latestCompletedXid s) (set gs) \<and>
        (\<forall>x \<in> insert (gt_latestCompletedXid s) (set gs). GlobalTransactionIdFollowsOrEquals m x)
      \<longrightarrow> modular_max (gt_latestCompletedXid s) gs = m)"
  using remove_pass_latest[of ps s] reap_walk_latest[of "gt_open_transactions s" cid bid "[]" s]
    modular_max_greatest[of _ "gt_latestCompletedXid s"]
  unfolding GTM_RemoveAllTransInfos_def by blast

theorem C2_latest_completed_is_modular_max_witness:
  "distinct (gt_open_transactions both_open) \<and>
   gt_latestCompletedXid both_open = 3 \<and>
   normal_gxids both_open (filter (\<lambda>p. reap_match 7 (- 1) (slot both_open p))
       (gt_open_transactions both_open)) = [3, 4] \<and>
   gt_latestCompletedXid (GTM_RemoveAllTransInfos 7 (- 1) both_open) = 4 \<and>
   gt_latestCompletedXid (GTM_RemoveTransInfoMulti [Some 1, None, Some 0] both_open) = 4"
proof -
  have d: "distinct (gt_open_transactions both_open)" unfolding both_open_def by code_simp
  have l: "gt_latestCompletedXid both_open = 3" unfolding both_open_def by code_simp
  have g: "normal_gxids both_open (filter (\<lambda>p. reap_match 7 (- 1) (slot both_open p))
       (gt_open_transactions both_open)) = [3, 4]" unfolding both_open_def by code_simp
  have g2: "normal_gxids both_open (non_null [Some 1, None, Some 0]) = [4, 3]"
    unfolding both_open_def by code_simp
  have m: "modular_max 3 [3, 4] = 4" "modular_max 3 [4, 3] = 4" by code_simp+
  show ?thesis
    using C2_latest_completed_is_modular_max[of "[Some 1, None, Some 0]" both_open 7 "- 1"] d l g g2 m
    by simp
qed

subsection \<open>Reaping the transactions of a client\<close>

lemma reap_walk_open:
  "gt_open_transactions s = kept @ cells \<Longrightarrow> distinct cells \<Longrightarrow>
   gt_open_transactions (reap_walk cid bid kept cells s) =
     kept @ filter (\<lambda>p. \<not> reap_match cid bid (slot s p)) cells"
proof (induction cells arbitrary: kept s)
  case Nil
  then show ?case by simp
next
  case (Cons p cells)
  have d: "distinct cells" "p \<notin> set cells" using Cons.prems by simp_all
  show ?case
  proof (cases "reap_match cid bid (slot s p)")
    case True
    let ?s1 = "GTM_TransactionInfo_Clean p
            (note_completed (gti_gxid (slot s p))
              (s\<lparr>gt_open_transactions := kept @ cells\<rparr>))"
    have sl: "\<And>q. q \<in> set cells \<Longrightarrow> slot ?s1 q = slot s q"
      using d(2) by (auto simp: slot_Clean)
    have f: "filter (\<lambda>q. \<not> reap_match cid bid (slot ?s1 q)) cells =
             filter (\<lambda>q. \<not> reap_match cid bid (slot s q)) cells"
      by (rule filter_cong) (simp_all add: sl)
    have o: "gt_open_transactions ?s1 = kept @ cells" by simp
    show ?thesis using Cons.IH[OF o d(1)] True unfolding f by simp
  next
    case False
    have o: "gt_open_transactions s = (kept @ [p]) @ cells" using Cons.prems(1) by simp
    show ?thesis using Cons.IH[OF o d(1)] False by simp
  qed
qed

lemma reap_walk_slot:
  "distinct cells \<Longrightarrow>
   slot (reap_walk cid bid kept cells s) q =
     (if q \<in> set cells \<and> reap_match cid bid (slot s q) \<and> q < length (gt_transactions_array s)
      then clean_slot (slot s q) else slot s q)"
proof (induction cells arbitrary: kept s)
  case Nil
  then show ?case by simp
next
  case (Cons p cells)
  have d: "distinct cells" "p \<notin> set cells" using Cons.prems by simp_all
  show ?case
  proof (cases "reap_match cid bid (slot s p)")
    case True
    let ?s1 = "GTM_TransactionInfo_Clean p
            (note_completed (gti_gxid (slot s p))
              (s\<lparr>gt_open_transactions := kept @ cells\<rparr>))"
    have sl: "\<And>r. r \<noteq> p \<Longrightarrow> slot ?s1 r = slot s r"
      by (simp add: slot_Clean)
    have sp: "slot ?s1 p = (if p < length (gt_transactions_array s) then clean_slot (slot s p) else slot s p)"
      by (simp add: slot_Clean)
    have ln: "length (gt_transactions_array ?s1) = length (gt_transactions_array s)" by simp
    show ?thesis
    proof (cases "q = p")
      case qp: True
      then show ?thesis using Cons.IH[OF d(1), of kept ?s1] True d(2) sp ln by simp
    next
      case False
      then show ?thesis using Cons.IH[OF d(1), of kept ?s1] True sl[of q] ln by simp
    qed
  next
    case False
    then show ?thesis using Cons.IH[OF d(1), of "kept @ [p]" s] by auto
  qed
qed

text \<open>
  Claim C6. On every table of a run, \<open>reap(client_id, proxy_client_id)\<close> takes out of
  the open list exactly the slots whose client matches, whose proxy client matches
  (\<open>- 1\<close> matches any) and whose state is neither prepared nor being prepared, and
  cleans them; every other open slot, so every prepared one, stays in the list
  unchanged.
\<close>

theorem C6_reap_removes_exactly_the_unprepared:
  assumes "reachable c s"
  shows "gt_open_transactions (GTM_RemoveAllTransInfos cid bid s) =
           filter (\<lambda>p. \<not> reap_wanted cid bid (slot s p)) (gt_open_transactions s) \<and>
         (\<forall>p \<in> set (gt_open_transactions s).
            if reap_wanted cid bid (slot s p)
            then p \<notin> set (gt_open_transactions (GTM_RemoveAllTransInfos cid bid s)) \<and>
                 slot (GTM_RemoveAllTransInfos cid bid s) p = clean_slot (slot s p)
            else p \<in> set (gt_open_transactions (GTM_RemoveAllTransInfos cid bid s)) \<and>
                 slot (GTM_RemoveAllTransInfos cid bid s) p = slot s p) \<and>
         (\<forall>p \<in> set (gt_open_transactions s).
            gti_state (slot s p) = GTM_TXN_PREPARED \<or>
            gti_state (slot s p) = GTM_TXN_PREPARE_IN_PROGRESS \<longrightarrow>
            p \<in> set (gt_open_transactions (GTM_RemoveAllTransInfos cid bid s)) \<and>
            slot (GTM_RemoveAllTransInfos cid bid s) p = slot s p)"
proof -
  have inv: "table_inv c s" using assms by (rule reachable_inv)
  have d: "distinct (gt_open_transactions s)" using inv by (rule inv_distinct)
  have m: "\<And>p. p \<in> set (gt_open_transactions s) \<Longrightarrow>
      reap_match cid bid (slot s p) = reap_wanted cid bid (slot s p)"
    using inv_open[OF inv] by (auto simp: reap_match_def reap_wanted_def)
  have l: "\<And>p. p \<in> set (gt_open_transactions s) \<Longrightarrow> p < length (gt_transactions_array s)"
    using inv_open[OF inv] inv_length[OF inv] by simp
  have f: "filter (\<lambda>p. \<not> reap_match cid bid (slot s p)) (gt_open_transactions s) =
           filter (\<lambda>p. \<not> reap_wanted cid bid (slot s p)) (gt_open_transactions s)"
    by (rule filter_cong) (simp_all add: m)
  have o: "gt_open_transactions (GTM_RemoveAllTransInfos cid bid s) =
           filter (\<lambda>p. \<not> reap_wanted cid bid (slot s p)) (gt_open_transactions s)"
    unfolding GTM_RemoveAllTransInfos_def using reap_walk_open[of s "[]", OF _ d] f by simp
  have sl: "\<And>p. p \<in> set (gt_open_transactions s) \<Longrightarrow>
      slot (GTM_RemoveAllTransInfos cid bid s) p =
        (if reap_wanted cid bid (slot s p) then clean_slot (slot s p) else slot s p)"
    unfolding GTM_RemoveAllTransInfos_def using reap_walk_slot[OF d] m l by simp
  have w: "\<And>p. gti_state (slot s p) = GTM_TXN_PREPARED \<or>
            gti_state (slot s p) = GTM_TXN_PREPARE_IN_PROGRESS \<Longrightarrow> \<not> reap_wanted cid bid (slot s p)"
    by (auto simp: reap_wanted_def)
  show ?thesis
    unfolding o using sl w by auto
qed

lemma reachable_one_prepared: "reachable small one_prepared"
  unfolding one_prepared_def by (rule reachable_run[OF reachable_init])

theorem C6_reap_removes_exactly_the_unprepared_witness:
  "gt_open_transactions one_prepared = [0, 1] \<and>
   gti_state (slot one_prepared 0) = GTM_TXN_PREPARE_IN_PROGRESS \<and>
   reap_wanted 7 (- 1) (slot one_prepared 1) \<and>
   gt_open_transactions (GTM_RemoveAllTransInfos 7 (- 1) one_prepared) = [0] \<and>
   slot (GTM_RemoveAllTransInfos 7 (- 1) one_prepared) 0 = slot one_prepared 0 \<and>
   slot (GTM_RemoveAllTransInfos 7 (- 1) one_prepared) 1 = clean_slot (slot one_prepared 1)"
proof -
  have a: "gt_open_transactions one_prepared = [0, 1]"
     "gti_state (slot one_prepared 0) = GTM_TXN_PREPARE_IN_PROGRESS"
     "reap_wanted 7 (- 1) (slot one_prepared 1)"
     "\<not> reap_wanted 7 (- 1) (slot one_prepared 0)"
    unfolding one_prepared_def by code_simp+
  show ?thesis
    using C6_reap_removes_exactly_the_unprepared[OF reachable_one_prepared, of 7 "- 1"] a
    by simp
qed

subsection \<open>Allocating a slot\<close>







lemma scan_pos_start:
  "scan_pos c s k = (scan_pos c s 0 + k) mod GTM_MAX_GLOBAL_TRANSACTIONS c"
  by (simp add: scan_pos_def mod_add_left_eq)





subsection \<open>Starting a prepared transaction\<close>

lemma filter_at_most_one:
  "distinct xs \<Longrightarrow> (\<And>a b. a \<in> set xs \<Longrightarrow> b \<in> set xs \<Longrightarrow> P a \<Longrightarrow> P b \<Longrightarrow> a = b) \<Longrightarrow>
   length (filter P xs) \<le> 1"
proof (induction xs)
  case Nil
  then show ?case by simp
next
  case (Cons x xs)
  have ih: "length (filter P xs) \<le> 1" using Cons by simp
  show ?case
  proof (cases "P x")
    case True
    have "filter P xs = []"
    proof (rule ccontr)
      assume "filter P xs \<noteq> []"
      then obtain y where y: "y \<in> set xs" "P y"
        by (metis filter_False)
      then have "x = y" using Cons.prems(2)[of x y] True by simp
      then show False using y(1) Cons.prems(1) by simp
    qed
    then show ?thesis using True by simp
  next
    case False
    then show ?thesis using ih by simp
  qed
qed

lemma carriers_at_most_one:
  assumes "table_inv c s"
  shows "length (carriers s g) \<le> 1"
  unfolding carriers_def
proof (rule filter_at_most_one[OF inv_distinct[OF assms]])
  fix a b assume "a \<in> set (gt_open_transactions s)" "b \<in> set (gt_open_transactions s)"
    "gti_gid (slot s a) = Some g" "gti_gid (slot s b) = Some g"
  then show "a = b" using gid_uniqueD[OF inv_gid[OF assms]] by blast
qed

text \<open>
  What \<open>StartPrepared\<close> does on a table of a run, the handle one past the array apart
  (the lookup reads it out of bounds): a GID that an open transaction carries already
  is refused and the table left as it is; otherwise, for a valid handle, the state of
  the slot becomes \<open>PrepareInProgress\<close> and node string and GID are stored, provided
  each of them fits its buffer with its terminating \<^verbatim>\<open>NUL\<close>; a string that does not fit
  is written past the end of its buffer. On every table of a run each GID is carried by
  at most one open transaction.
\<close>

lemma StartPrepared_duplicate:
  assumes "reachable c s" and "h \<noteq> int (GTM_MAX_GLOBAL_TRANSACTIONS c)"
    and "\<exists>q \<in> set (gt_open_transactions s). gti_gid (slot s q) = Some gid"
  shows "GTM_StartPreparedTransaction c h gid nodes s = Inr (STATUS_ERROR, s)"
proof -
  have inv: "table_inv c s" using assms(1) by (rule reachable_inv)
  have len: "length (gt_transactions_array s) = GTM_MAX_GLOBAL_TRANSACTIONS c"
    using inv by (rule inv_length)
  have dup: "GTM_GIDToHandle s gid \<noteq> InvalidTransactionHandle"
    using GIDToHandle_miss[OF inv] assms(3) by blast
  have "\<exists>po. GTM_HandleToTransactionInfo c s h = Inr po"
    using len assms(2) by (auto simp: GTM_HandleToTransactionInfo_def)
  then show ?thesis using dup
    by (auto simp: GTM_StartPreparedTransaction_def split: option.splits)
qed

lemma StartPrepared_new_gid:
  assumes "reachable c s" and "valid_handle c s h"
    and "\<not> (\<exists>q \<in> set (gt_open_transactions s). gti_gid (slot s q) = Some gid)"
  shows "GTM_StartPreparedTransaction c h gid nodes s =
           (if GTM_MAX_NODESTRING_LEN c \<le> length nodes then
              Inl (BufferOverflow,
                   upd_slot (nat h) (\<lambda>t. t\<lparr>gti_state := GTM_TXN_PREPARE_IN_PROGRESS\<rparr>) s)
            else if GTM_MAX_GID_LEN c \<le> length gid then
              Inl (BufferOverflow,
                   upd_slot (nat h) (\<lambda>t. t\<lparr>gti_state := GTM_TXN_PREPARE_IN_PROGRESS,
                                            nodestring := Some nodes\<rparr>) s)
            else
              Inr (STATUS_OK,
                   upd_slot (nat h) (\<lambda>t. t\<lparr>gti_state := GTM_TXN_PREPARE_IN_PROGRESS,
                                            nodestring := Some nodes,
                                            gti_gid := Some gid\<rparr>) s))"
proof -
  have inv: "table_inv c s" using assms(1) by (rule reachable_inv)
  have len: "length (gt_transactions_array s) = GTM_MAX_GLOBAL_TRANSACTIONS c"
    using inv by (rule inv_length)
  have "GTM_GIDToHandle s gid = InvalidTransactionHandle"
    using GIDToHandle_hit assms(3) by blast
  then show ?thesis
    using valid_handle_lookup[OF len, of h] assms(2)
    by (auto simp: GTM_StartPreparedTransaction_def)
qed

lemma gid_carried_once:
  assumes "reachable c s"
  shows "length (carriers s g) \<le> 1"
  using carriers_at_most_one[OF reachable_inv[OF assms]] .

text \<open>
  Claim C7 at a concrete call. Both slots are open and no GID is carried; the GID of
  the call has \<^verbatim>\<open>GTM_MAX_GID_LEN\<close> characters, one more than its buffer holds with the
  terminating \<^verbatim>\<open>NUL\<close>. The claim has the GID copied into the storage of the table; the
  code, which tests no length, writes past the end of the buffer.
\<close>

theorem C7_start_prepared_overruns_gid_buffer:
  "valid_handle small both_open 1 \<and>
   carriers both_open ''GID-4567'' = [] \<and>
   length ''GID-4567'' = GTM_MAX_GID_LEN small \<and>
   length ''n'' < GTM_MAX_NODESTRING_LEN small \<and>
   (case GTM_StartPreparedTransaction small 1 ''GID-4567'' ''n'' both_open of
      Inl (e, s') \<Rightarrow> e = BufferOverflow
    | Inr x \<Rightarrow> False)"
  unfolding both_open_def by code_simp

subsection \<open>Commit and the transactions it waits for\<close>

lemma IsGXIDInProgress_iff:
  assumes inv: "table_inv c s"
  shows "GTM_IsGXIDInProgress s g = gxid_open s g"
proof (cases "g = 0")
  case True
  then show ?thesis
    by (simp add: GTM_IsGXIDInProgress_def GTM_GXIDToHandle_Internal_def
        GlobalTransactionIdIsValid_def gxid_open_def)
next
  case False
  show ?thesis
  proof (cases "find (\<lambda>p. gti_gxid (slot s p) = g) (gt_open_transactions s)")
    case None
    then have "\<not> (\<exists>p \<in> set (gt_open_transactions s). gti_gxid (slot s p) = g)"
      by (simp add: find_None_iff)
    then show ?thesis using None False
      by (simp add: GTM_IsGXIDInProgress_def GTM_GXIDToHandle_Internal_def
        GlobalTransactionIdIsValid_def gxid_open_def)
  next
    case (Some r)
    have r: "r \<in> set (gt_open_transactions s)" "gti_gxid (slot s r) = g"
      using find_SomeD[OF Some] by simp_all
    have "gti_handle (slot s r) = int r" using inv_open[OF inv r(1)] by simp
    then show ?thesis using Some False r
      by (auto simp: GTM_IsGXIDInProgress_def GTM_GXIDToHandle_Internal_def
        GlobalTransactionIdIsValid_def gxid_open_def)
  qed
qed

lemma mark_preserves:
  assumes "\<And>t. gti_gxid (f t) = gti_gxid t" "\<And>t. gti_handle (f t) = gti_handle t"
          "\<And>t. gti_in_use (f t) = gti_in_use t"
  shows "GTM_IsGXIDInProgress (upd_slot p f s) g = GTM_IsGXIDInProgress s g"
    and "GTM_HandleToTransactionInfo c (upd_slot p f s) h = GTM_HandleToTransactionInfo c s h"
proof -
  have e: "\<And>q. gti_gxid (slot (upd_slot p f s) q) = gti_gxid (slot s q)"
     "\<And>q. gti_handle (slot (upd_slot p f s) q) = gti_handle (slot s q)"
     "\<And>q. gti_in_use (slot (upd_slot p f s) q) = gti_in_use (slot s q)"
    using assms by (simp_all add: slot_upd_slot)
  show "GTM_IsGXIDInProgress (upd_slot p f s) g = GTM_IsGXIDInProgress s g"
    by (simp add: GTM_IsGXIDInProgress_def GTM_GXIDToHandle_Internal_def e split: option.splits)
  show "GTM_HandleToTransactionInfo c (upd_slot p f s) h = GTM_HandleToTransactionInfo c s h"
    by (simp add: GTM_HandleToTransactionInfo_def e)
qed

lemma commit_mark_delayed:
  assumes "list_ex (GTM_IsGXIDInProgress s) ws"
    and "\<forall>h \<in> set txn. \<exists>po. GTM_HandleToTransactionInfo c s h = Inr po"
  shows "commit_mark c txn ws s =
           Inr (([], map (\<lambda>h. if GTM_HandleToTransactionInfo c s h = Inr None
                               then STATUS_ERROR else STATUS_DELAYED) txn), s)"
  using assms(2)
proof (induction txn)
  case Nil
  show ?case by simp
next
  case (Cons h hs)
  obtain po where po: "GTM_HandleToTransactionInfo c s h = Inr po" using Cons.prems by auto
  have ih: "commit_mark c hs ws s =
           Inr (([], map (\<lambda>h. if GTM_HandleToTransactionInfo c s h = Inr None
                               then STATUS_ERROR else STATUS_DELAYED) hs), s)"
    using Cons by simp
  show ?case using po ih assms(1) by (cases po) simp_all
qed

lemma commit_mark_ok:
  assumes "\<not> list_ex (GTM_IsGXIDInProgress s) ws"
    and "\<forall>h \<in> set txn. \<exists>po. GTM_HandleToTransactionInfo c s h = Inr po"
  shows "\<exists>ps sts s1. commit_mark c txn ws s = Inr ((ps, sts), s1) \<and>
           list_all2 (\<lambda>h st. \<forall>p. GTM_HandleToTransactionInfo c s h = Inr (Some p) \<longrightarrow>
              st = STATUS_OK \<and> Some p \<in> set ps \<and>
              gti_state (slot s1 p) = GTM_TXN_COMMIT_IN_PROGRESS) txn sts \<and>
           length (gt_transactions_array s1) = length (gt_transactions_array s) \<and>
           (\<forall>q. gti_state (slot s q) = GTM_TXN_COMMIT_IN_PROGRESS \<longrightarrow>
                gti_state (slot s1 q) = GTM_TXN_COMMIT_IN_PROGRESS)"
  using assms
proof (induction txn arbitrary: s)
  case Nil
  show ?case by simp
next
  case (Cons h hs)
  obtain po where po: "GTM_HandleToTransactionInfo c s h = Inr po" using Cons.prems by auto
  show ?case
  proof (cases po)
    case None
    obtain ps sts s1 where ih: "commit_mark c hs ws s = Inr ((ps, sts), s1)"
      "list_all2 (\<lambda>h st. \<forall>p. GTM_HandleToTransactionInfo c s h = Inr (Some p) \<longrightarrow>
              st = STATUS_OK \<and> Some p \<in> set ps \<and>
              gti_state (slot s1 p) = GTM_TXN_COMMIT_IN_PROGRESS) hs sts"
      "length (gt_transactions_array s1) = length (gt_transactions_array s)"
      "\<forall>q. gti_state (slot s q) = GTM_TXN_COMMIT_IN_PROGRESS \<longrightarrow>
                gti_state (slot s1 q) = GTM_TXN_COMMIT_IN_PROGRESS"
      using Cons.IH[of s] Cons.prems by auto
    show ?thesis
      using po None ih by simp
  next
    case (Some p)
    let ?f = "\<lambda>t. t\<lparr>gti_state := GTM_TXN_COMMIT_IN_PROGRESS\<rparr>"
    let ?s = "upd_slot p ?f s"
    have pl: "p < length (gt_transactions_array s)"
      using po Some by (simp add: handle_lookup_Some)
    have w: "\<not> list_ex (GTM_IsGXIDInProgress ?s) ws"
      using Cons.prems(1) by (simp add: mark_preserves(1) list_ex_iff)
    have lk: "\<And>h. GTM_HandleToTransactionInfo c ?s h = GTM_HandleToTransactionInfo c s h"
      by (simp add: mark_preserves(2))
    have nf: "\<forall>h \<in> set hs. \<exists>po. GTM_HandleToTransactionInfo c ?s h = Inr po"
      using Cons.prems(2) by (simp add: lk)
    obtain ps sts s1 where ih: "commit_mark c hs ws ?s = Inr ((ps, sts), s1)"
      "list_all2 (\<lambda>h st. \<forall>p. GTM_HandleToTransactionInfo c ?s h = Inr (Some p) \<longrightarrow>
              st = STATUS_OK \<and> Some p \<in> set ps \<and>
              gti_state (slot s1 p) = GTM_TXN_COMMIT_IN_PROGRESS) hs sts"
      "length (gt_transactions_array s1) = length (gt_transactions_array ?s)"
      "\<forall>q. gti_state (slot ?s q) = GTM_TXN_COMMIT_IN_PROGRESS \<longrightarrow>
                gti_state (slot s1 q) = GTM_TXN_COMMIT_IN_PROGRESS"
      using Cons.IH[OF w nf] by auto
    have sp: "gti_state (slot ?s p) = GTM_TXN_COMMIT_IN_PROGRESS"
      using pl by (simp add: slot_upd_slot)
    have mono: "\<And>q. gti_state (slot s q) = GTM_TXN_COMMIT_IN_PROGRESS \<Longrightarrow>
                gti_state (slot ?s q) = GTM_TXN_COMMIT_IN_PROGRESS"
      by (simp add: slot_upd_slot)
    have r: "commit_mark c (h # hs) ws s = Inr ((Some p # ps, STATUS_OK # sts), s1)"
      using po Some Cons.prems(1) ih(1) by simp
    have l2: "list_all2 (\<lambda>h st. \<forall>p'. GTM_HandleToTransactionInfo c s h = Inr (Some p') \<longrightarrow>
              st = STATUS_OK \<and> Some p' \<in> set (Some p # ps) \<and>
              gti_state (slot s1 p') = GTM_TXN_COMMIT_IN_PROGRESS) hs sts"
      using ih(2) unfolding lk by (rule list_all2_mono) auto
    have hd: "\<forall>p'. GTM_HandleToTransactionInfo c s h = Inr (Some p') \<longrightarrow>
              STATUS_OK = STATUS_OK \<and> Some p' \<in> set (Some p # ps) \<and>
              gti_state (slot s1 p') = GTM_TXN_COMMIT_IN_PROGRESS"
      using po Some ih(4) sp by simp
    show ?thesis
      unfolding r using l2 hd ih(3) ih(4) mono by simp
  qed
qed

lemma remove_keeps_free:
  "\<not> gti_in_use (slot s p) \<Longrightarrow> \<not> gti_in_use (slot (GTM_RemoveTransInfoMulti ps s) p)"
proof (induction ps s rule: GTM_RemoveTransInfoMulti.induct)
  case (3 q ps s)
  have "\<not> gti_in_use (slot (GTM_TransactionInfo_Clean q
         (note_completed (gti_gxid (slot s q))
           (s\<lparr>gt_open_transactions := remove1 q (gt_open_transactions s)\<rparr>))) p)"
    using "3.prems" by (simp add: slot_Clean clean_slot_def)
  from "3.IH"[OF this] show ?case by simp
qed simp_all

lemma remove_frees:
  "Some p \<in> set ps \<Longrightarrow> p < length (gt_transactions_array s) \<Longrightarrow>
   \<not> gti_in_use (slot (GTM_RemoveTransInfoMulti ps s) p)"
proof (induction ps s rule: GTM_RemoveTransInfoMulti.induct)
  case (1 s)
  then show ?case by simp
next
  case (2 ps s)
  then show ?case by simp
next
  case (3 q ps s)
  let ?s1 = "GTM_TransactionInfo_Clean q
         (note_completed (gti_gxid (slot s q))
           (s\<lparr>gt_open_transactions := remove1 q (gt_open_transactions s)\<rparr>))"
  show ?case
  proof (cases "q = p")
    case True
    have "\<not> gti_in_use (slot ?s1 p)" using True "3.prems"(2) by (simp add: slot_Clean clean_slot_def)
    then show ?thesis using remove_keeps_free by simp
  next
    case False
    then have "Some p \<in> set ps" using "3.prems"(1) by simp
    moreover have "p < length (gt_transactions_array ?s1)" using "3.prems"(2) by simp
    ultimately show ?thesis using "3.IH" by simp
  qed
qed

text \<open>
  Claim C1. On every table of a run, for a commit of one or several handles (none of
  them the handle one past the array, which the lookup reads out of bounds) with the
  list \<open>waited_xids\<close>, and for each valid handle of the request: if a GXID of
  \<open>waited_xids\<close> is present in the open list, the status of the handle is \<open>Delayed\<close>,
  and after the call its slot is still in the open list and is unchanged; otherwise the
  status is \<open>OK\<close>, the first loop has set the state of the slot to
  \<open>CommitInProgress\<close>, and after the removal pass the slot is no longer in the open
  list.
\<close>

theorem C1_commit_delayed_or_removed:
  assumes "reachable c s"
    and "\<forall>h \<in> set txn. h \<noteq> int (GTM_MAX_GLOBAL_TRANSACTIONS c)"
  shows "\<exists>ps sts s1.
     commit_mark c txn waited_xids s = Inr ((ps, sts), s1) \<and>
     GTM_CommitTransactionMulti c txn waited_xids s = Inr (sts, GTM_RemoveTransInfoMulti ps s1) \<and>
     length sts = length txn \<and>
     (\<forall>i < length txn. valid_handle c s (txn ! i) \<longrightarrow>
        (if \<exists>g \<in> set waited_xids. gxid_open s g
         then sts ! i = STATUS_DELAYED \<and>
              nat (txn ! i) \<in> set (gt_open_transactions (GTM_RemoveTransInfoMulti ps s1)) \<and>
              slot (GTM_RemoveTransInfoMulti ps s1) (nat (txn ! i)) = slot s (nat (txn ! i))
         else sts ! i = STATUS_OK \<and>
              gti_state (slot s1 (nat (txn ! i))) = GTM_TXN_COMMIT_IN_PROGRESS \<and>
              nat (txn ! i) \<notin> set (gt_open_transactions (GTM_RemoveTransInfoMulti ps s1))))"
proof -
  have inv: "table_inv c s" using assms(1) by (rule reachable_inv)
  have len: "length (gt_transactions_array s) = GTM_MAX_GLOBAL_TRANSACTIONS c"
    using inv by (rule inv_length)
  have nf: "\<forall>h \<in> set txn. \<exists>po. GTM_HandleToTransactionInfo c s h = Inr po"
    using assms(2) len by (auto simp: GTM_HandleToTransactionInfo_def)
  have W: "list_ex (GTM_IsGXIDInProgress s) waited_xids \<longleftrightarrow> (\<exists>g \<in> set waited_xids. gxid_open s g)"
    by (simp add: list_ex_iff IsGXIDInProgress_iff[OF inv])
  show ?thesis
  proof (cases "\<exists>g \<in> set waited_xids. gxid_open s g")
    case True
    let ?sts = "map (\<lambda>h. if GTM_HandleToTransactionInfo c s h = Inr None
                               then STATUS_ERROR else STATUS_DELAYED) txn"
    have cm: "commit_mark c txn waited_xids s = Inr (([], ?sts), s)"
      using commit_mark_delayed[OF _ nf] W True by simp
    have per: "\<forall>i < length txn. valid_handle c s (txn ! i) \<longrightarrow>
         ?sts ! i = STATUS_DELAYED \<and> nat (txn ! i) \<in> set (gt_open_transactions s)"
    proof (intro allI impI)
      fix i assume i: "i < length txn" and v: "valid_handle c s (txn ! i)"
      have "GTM_HandleToTransactionInfo c s (txn ! i) = Inr (Some (nat (txn ! i)))"
        using valid_handle_lookup[OF len v] .
      moreover have "nat (txn ! i) \<in> set (gt_open_transactions s)"
        using inv_in_use[OF inv] valid_handleD[OF v] by simp
      ultimately show "?sts ! i = STATUS_DELAYED \<and> nat (txn ! i) \<in> set (gt_open_transactions s)"
        using i by simp
    qed
    show ?thesis
      apply (rule exI[of _ "[]"], rule exI[of _ ?sts], rule exI[of _ s])
      using cm per True by (simp add: GTM_CommitTransactionMulti_def)
  next
    case False
    then have nw: "\<not> list_ex (GTM_IsGXIDInProgress s) waited_xids" using W by simp
    obtain ps sts s1 where cm: "commit_mark c txn waited_xids s = Inr ((ps, sts), s1)"
      and l2: "list_all2 (\<lambda>h st. \<forall>p. GTM_HandleToTransactionInfo c s h = Inr (Some p) \<longrightarrow>
              st = STATUS_OK \<and> Some p \<in> set ps \<and>
              gti_state (slot s1 p) = GTM_TXN_COMMIT_IN_PROGRESS) txn sts"
      and ln: "length (gt_transactions_array s1) = length (gt_transactions_array s)"
      using commit_mark_ok[OF nw nf] by blast
    let ?s' = "GTM_RemoveTransInfoMulti ps s1"
    have "result_inv c (commit_mark c txn waited_xids s)" using inv by (rule commit_mark_inv)
    then have inv1: "table_inv c s1" using cm by simp
    have inv': "table_inv c ?s'" using inv1 by (rule RemoveTransInfoMulti_inv)
    have lsts: "length sts = length txn" using l2 by (simp add: list_all2_lengthD)
    have per: "\<forall>i < length txn. valid_handle c s (txn ! i) \<longrightarrow>
         sts ! i = STATUS_OK \<and>
              gti_state (slot s1 (nat (txn ! i))) = GTM_TXN_COMMIT_IN_PROGRESS \<and>
              nat (txn ! i) \<notin> set (gt_open_transactions ?s')"
    proof (intro allI impI)
      fix i assume i: "i < length txn" and v: "valid_handle c s (txn ! i)"
      have lk: "GTM_HandleToTransactionInfo c s (txn ! i) = Inr (Some (nat (txn ! i)))"
        using valid_handle_lookup[OF len v] .
      have a: "sts ! i = STATUS_OK \<and> Some (nat (txn ! i)) \<in> set ps \<and>
               gti_state (slot s1 (nat (txn ! i))) = GTM_TXN_COMMIT_IN_PROGRESS"
        using list_all2_nthD[OF l2 i] lk by simp
      have "nat (txn ! i) < length (gt_transactions_array s1)"
        using valid_handleD[OF v] ln len by simp
      then have "\<not> gti_in_use (slot ?s' (nat (txn ! i)))"
        using remove_frees a by simp
      then have "nat (txn ! i) \<notin> set (gt_open_transactions ?s')"
        using inv_open[OF inv'] by blast
      then show "sts ! i = STATUS_OK \<and>
              gti_state (slot s1 (nat (txn ! i))) = GTM_TXN_COMMIT_IN_PROGRESS \<and>
              nat (txn ! i) \<notin> set (gt_open_transactions ?s')" using a by simp
    qed
    show ?thesis
      apply (rule exI[of _ ps], rule exI[of _ sts], rule exI[of _ s1])
      using cm per False lsts by (simp add: GTM_CommitTransactionMulti_def)
  qed
qed


theorem C1_commit_delayed_or_removed_witness:
  "(\<exists>sts s'. GTM_CommitTransactionMulti small [1] [3] both_open = Inr (sts, s') \<and>
       sts ! 0 = STATUS_DELAYED \<and> 1 \<in> set (gt_open_transactions s') \<and>
       slot s' 1 = slot both_open 1) \<and>
   (\<exists>sts s'. GTM_CommitTransactionMulti small [0] [] both_open = Inr (sts, s') \<and>
       sts ! 0 = STATUS_OK \<and> 0 \<notin> set (gt_open_transactions s'))"
proof -
  have h: "\<forall>h \<in> set [1]. h \<noteq> int (GTM_MAX_GLOBAL_TRANSACTIONS small)"
      "\<forall>h \<in> set [0]. h \<noteq> int (GTM_MAX_GLOBAL_TRANSACTIONS small)"
    by (simp_all add: small_def)
  have v: "valid_handle small both_open 1" "valid_handle small both_open 0"
      "gxid_open both_open 3"
    unfolding both_open_def by code_simp+
  have d: "\<exists>g \<in> set [3]. gxid_open both_open g" using v(3) by simp
  have n: "\<not> (\<exists>g \<in> set []. gxid_open both_open g)" by simp
  note t1 = C1_commit_delayed_or_removed[OF reachable_both_open h(1), of "[3]"]
   and t2 = C1_commit_delayed_or_removed[OF reachable_both_open h(2), of "[]"]
  have r1: "\<exists>sts s'. GTM_CommitTransactionMulti small [1] [3] both_open = Inr (sts, s') \<and>
       sts ! 0 = STATUS_DELAYED \<and> 1 \<in> set (gt_open_transactions s') \<and>
       slot s' 1 = slot both_open 1"
    using t1 v(1) d by fastforce
  have r2: "\<exists>sts s'. GTM_CommitTransactionMulti small [0] [] both_open = Inr (sts, s') \<and>
       sts ! 0 = STATUS_OK \<and> 0 \<notin> set (gt_open_transactions s')"
    using t2 v(2) n by fastforce
  show ?thesis using r1 r2 by blast
qed

subsection \<open>Replaying a mirror call\<close>

text \<open>
  Claim C9, as stated, at a concrete table. The mirror call carries GXID 5 and no
  session id (as the autovacuum mirror call does). \<^verbatim>\<open>GTM_GlobalSessionIDToHandle\<close>
  answers "no handle" for an absent or empty session id, so each application opens a
  slot of its own: after one application slot 0 is open, after two applications slots
  0 and 1 are open, both with GXID 5.
\<close>

theorem C9_mirror_replay_counterexample:
  "(case GTM_BkupBeginTransactionGetGXID small 7 5 2 False None (GTM_InitTxnManager small) of
      Inr (u, s1) \<Rightarrow> gt_open_transactions s1 = [0]
    | Inl e \<Rightarrow> False) \<and>
   (case bkup_twice small 7 5 2 False None (GTM_InitTxnManager small) of
      Inr (u, s2) \<Rightarrow>
        gt_open_transactions s2 = [0, 1] \<and> gti_gxid (slot s2 0) = 5 \<and> gti_gxid (slot s2 1) = 5
    | Inl e \<Rightarrow> False) \<and>
   bkup_twice small 7 5 2 False None (GTM_InitTxnManager small) \<noteq>
     GTM_BkupBeginTransactionGetGXID small 7 5 2 False None (GTM_InitTxnManager small)"
  by code_simp

lemma once_unfold:
  "GTM_BkupBeginTransactionGetGXID c cid g isol ro sido s =
     (case begin_one c cid \<lparr>rq_isolevel = isol, rq_readonly = ro,
                rq_global_sessionid = sido, rq_connid = - 1\<rparr> s of
        Inl e \<Rightarrow> Inl e
      | Inr (txn, s1) \<Rightarrow>
          (case GTM_HandleToTransactionInfo c s1 txn of
             Inl e \<Rightarrow> Inl (e, s1)
           | Inr None \<Rightarrow> Inl (NullPointerDereference, s1)
           | Inr (Some p) \<Rightarrow>
               Inr ((), control_checkpoint c (gt_nextXid (mirror_store c g sido p s1))
                          (mirror_store c g sido p s1))))"
proof (cases "begin_one c cid \<lparr>rq_isolevel = isol, rq_readonly = ro,
                rq_global_sessionid = sido, rq_connid = - 1\<rparr> s")
  case (Inl e)
  then show ?thesis
    by (simp add: GTM_BkupBeginTransactionGetGXID_def GTM_BkupBeginTransactionGetGXIDMulti_def)
next
  case (Inr b)
  obtain txn s1 where b: "b = (txn, s1)" by (cases b)
  show ?thesis
  proof (cases "GTM_HandleToTransactionInfo c s1 txn")
    case (Inl e)
    then show ?thesis using Inr b
      by (simp add: GTM_BkupBeginTransactionGetGXID_def GTM_BkupBeginTransactionGetGXIDMulti_def)
  next
    case lk: (Inr po)
    show ?thesis
    proof (cases po)
      case None
      then show ?thesis using Inr b lk
        by (simp add: GTM_BkupBeginTransactionGetGXID_def GTM_BkupBeginTransactionGetGXIDMulti_def)
    next
      case (Some p)
      then show ?thesis using Inr b lk
        by (simp add: GTM_BkupBeginTransactionGetGXID_def GTM_BkupBeginTransactionGetGXIDMulti_def
              control_checkpoint_def mirror_store_def Let_def)
    qed
  qed
qed

lemma find_append_miss:
  "find P xs = None \<Longrightarrow> find P (xs @ ys) = find P ys"
  by (induction xs) (auto split: if_splits)

lemma find_pred_cong:
  "(\<And>x. x \<in> set xs \<Longrightarrow> P x = Q x) \<Longrightarrow> find P xs = find Q xs"
  by (induction xs) auto

lemma upd_slot_same: "f (slot s p) = slot s p \<Longrightarrow> upd_slot p f s = s"
  by (simp add: upd_slot_def slot_def)

lemma adv_post:
  assumes "gt_nextXid s \<noteq> 0"
  shows "gt_nextXid (bkup_advance g s) \<noteq> 0 \<and>
         \<not> GlobalTransactionIdPrecedesOrEquals (gt_nextXid (bkup_advance g s)) g"
proof -
  have 1: "\<not> GlobalTransactionIdPrecedesOrEquals (g + 1) g"
    by (simp add: GlobalTransactionIdPrecedesOrEquals_def)
  have 2: "g + 1 = 0 \<Longrightarrow> \<not> GlobalTransactionIdPrecedesOrEquals 3 g"
  proof -
    assume "g + 1 = 0"
    then have "g = - 1" by (simp add: add_eq_0_iff2)
    then show ?thesis by (simp add: GlobalTransactionIdPrecedesOrEquals_def)
  qed
  show ?thesis
    using assms 1 2
    by (auto simp: bkup_advance_def Let_def GlobalTransactionIdIsValid_def)
qed

lemma adv_id:
  "gt_nextXid s \<noteq> 0 \<Longrightarrow> \<not> GlobalTransactionIdPrecedesOrEquals (gt_nextXid s) g \<Longrightarrow>
   bkup_advance g s = s"
  by (simp add: bkup_advance_def Let_def GlobalTransactionIdIsValid_def)

lemma checkpoint_again:
  "control_checkpoint c (gt_nextXid s) (control_checkpoint c (gt_nextXid s) s) =
     control_checkpoint c (gt_nextXid s) s"
proof (cases "save_control_due c (gt_nextXid s) s")
  case True
  let ?s' = "SaveControlInfo (s\<lparr>ControlXid := gt_nextXid s\<rparr>)"
  have e: "control_checkpoint c (gt_nextXid s) s = ?s'"
    using True by (simp add: control_checkpoint_def)
  have "ControlXid ?s' = gt_nextXid s" by (simp add: SaveControlInfo_def)
  then have "\<not> save_control_due c (gt_nextXid s) ?s'"
    by (simp add: save_control_due_def)
  then have "control_checkpoint c (gt_nextXid s) ?s' = ?s'"
    by (simp add: control_checkpoint_def)
  then show ?thesis unfolding e .
next
  case False
  then have "control_checkpoint c (gt_nextXid s) s = s"
    by (simp add: control_checkpoint_def)
  then show ?thesis by simp
qed

lemma checkpoint_fields [simp]:
  "gt_transactions_array (control_checkpoint c x s) = gt_transactions_array s"
  "gt_open_transactions (control_checkpoint c x s) = gt_open_transactions s"
  "gt_lastslot (control_checkpoint c x s) = gt_lastslot s"
  "gt_nextXid (control_checkpoint c x s) = gt_nextXid s"
  by (simp_all add: control_checkpoint_def Let_def SaveControlInfo_def)

lemma slot_checkpoint [simp]: "slot (control_checkpoint c x s) q = slot s q"
  by (simp add: slot_def)

lemma bkup_advance_checkpoint:
  "gt_nextXid s \<noteq> 0 \<Longrightarrow> \<not> GlobalTransactionIdPrecedesOrEquals (gt_nextXid s) g \<Longrightarrow>
   bkup_advance g (control_checkpoint c x s) = control_checkpoint c x s"
  by (rule adv_id) simp_all


lemma mirror_store_fields [simp]:
  "gt_open_transactions (mirror_store c g sido p s) = gt_open_transactions s"
  "gt_lastslot (mirror_store c g sido p s) = gt_lastslot s"
  "length (gt_transactions_array (mirror_store c g sido p s)) = length (gt_transactions_array s)"
  by (simp_all add: mirror_store_def Let_def split: option.splits)

lemma slot_bkup_advance [simp]: "slot (bkup_advance g s) q = slot s q"
  by (simp add: slot_def)

lemma slot_mirror_store:
  "slot (mirror_store c g (Some sid) p s) q =
     (if q = p \<and> p < length (gt_transactions_array s)
      then (slot s p)\<lparr>gti_gxid := g, gti_global_session_id := take (GTM_MAX_SESSION_ID_LEN c) sid\<rparr>
      else slot s q)"
  by (simp add: mirror_store_def Let_def slot_upd_slot)

lemma nextXid_mirror_store:
  "gt_nextXid (mirror_store c g sido p s) = gt_nextXid (bkup_advance g s)"
  by (simp add: mirror_store_def Let_def bkup_advance_def split: option.splits)

lemma nextXid_bkup_advance_cong:
  "gt_nextXid s = gt_nextXid t \<Longrightarrow> gt_nextXid (bkup_advance g s) = gt_nextXid (bkup_advance g t)"
  by (simp add: bkup_advance_def Let_def)

lemma session_id_string_short:
  "length sid < GTM_MAX_SESSION_ID_LEN c \<Longrightarrow>
   (session_id_string c t = sid) = (gti_global_session_id t = sid)"
  by (auto simp: session_id_string_def)

lemma GlobalSessionIDToHandle_short:
  assumes "sid \<noteq> []" and "length sid < GTM_MAX_SESSION_ID_LEN c"
  shows "GTM_GlobalSessionIDToHandle c s (Some sid) =
           (case find (\<lambda>q. gti_global_session_id (slot s q) = sid) (gt_open_transactions s) of
              Some p \<Rightarrow> gti_handle (slot s p)
            | None \<Rightarrow> InvalidTransactionHandle)"
  using assms by (simp add: GTM_GlobalSessionIDToHandle_def session_id_string_short)

lemma begin_one_session:
  assumes inv: "table_inv c s" and sid: "sid \<noteq> []" "length sid < GTM_MAX_SESSION_ID_LEN c"
    and b: "begin_one c cid \<lparr>rq_isolevel = isol, rq_readonly = ro,
                rq_global_sessionid = Some sid, rq_connid = - 1\<rparr> s = Inr (txn, s1)"
  shows "\<exists>p. txn = int p \<and>
            find (\<lambda>q. gti_global_session_id (slot s1 q) = sid) (gt_open_transactions s1) = Some p \<and>
            gt_nextXid s1 = gt_nextXid s"
proof (cases "find (\<lambda>q. gti_global_session_id (slot s q) = sid) (gt_open_transactions s)")
  case (Some q)
  have "q \<in> set (gt_open_transactions s)" using find_SomeD[OF Some] by simp
  then have h: "gti_handle (slot s q) = int q" using inv_open[OF inv] by simp
  then have "GTM_GlobalSessionIDToHandle c s (Some sid) = int q"
    using Some by (simp add: GlobalSessionIDToHandle_short[OF sid])
  then have "txn = int q \<and> s1 = s"
    using b by (auto simp: begin_one_def Let_def split: sum.splits option.splits)
  then show ?thesis using Some by simp
next
  case None
  then have m: "GTM_GlobalSessionIDToHandle c s (Some sid) = - 1"
    by (simp add: GlobalSessionIDToHandle_short[OF sid])
  then obtain ii where ii: "find_free_slot c s = Inr ii" and tx: "txn = int ii"
    and s1: "s1 = (GTM_TransactionInfo_Init c ii (int ii) isol cid (- 1) (Some sid) ro s)
                  \<lparr>gt_lastslot := int ii,
                   gt_open_transactions := gt_open_transactions s @ [ii]\<rparr>"
    using b by (auto simp: begin_one_def Let_def split: sum.splits)
  have f: "ii < length (gt_transactions_array s)" "\<not> gti_in_use (slot s ii)"
    using find_free_slot_Inr[OF ii] by simp_all
  have notin: "ii \<notin> set (gt_open_transactions s)" using inv_open[OF inv, of ii] f(2) by blast
  have sl: "\<And>q. q \<noteq> ii \<Longrightarrow> slot s1 q = slot s q"
    unfolding s1 by (simp add: slot_def GTM_TransactionInfo_Init_def upd_slot_def)
  have sii: "gti_global_session_id (slot s1 ii) = sid"
    unfolding s1 using f(1) sid(2) by (simp add: slot_def GTM_TransactionInfo_Init_def upd_slot_def)
  have op: "gt_open_transactions s1 = gt_open_transactions s @ [ii]" unfolding s1 by simp
  have nx: "gt_nextXid s1 = gt_nextXid s" unfolding s1 by (simp add: GTM_TransactionInfo_Init_def)
  have "find (\<lambda>q. gti_global_session_id (slot s1 q) = sid) (gt_open_transactions s) =
        find (\<lambda>q. gti_global_session_id (slot s q) = sid) (gt_open_transactions s)"
  proof (rule find_pred_cong)
    fix x assume "x \<in> set (gt_open_transactions s)"
    then have "x \<noteq> ii" using notin by blast
    then have "slot s1 x = slot s x" by (rule sl)
    then show "(gti_global_session_id (slot s1 x) = sid) = (gti_global_session_id (slot s x) = sid)"
      by simp
  qed
  then have "find (\<lambda>q. gti_global_session_id (slot s1 q) = sid) (gt_open_transactions s) = None"
    using None by simp
  then have "find (\<lambda>q. gti_global_session_id (slot s1 q) = sid) (gt_open_transactions s1) = Some ii"
    unfolding op using sii by (simp add: find_append_miss)
  then show ?thesis using tx nx by simp
qed

lemma second_is_noop:
  assumes inv1: "table_inv c s1"
    and f: "find (\<lambda>q. gti_global_session_id (slot s1 q) = sid) (gt_open_transactions s1) = Some p"
    and sid: "sid \<noteq> []" "length sid < GTM_MAX_SESSION_ID_LEN c"
    and valid: "gt_nextXid s1 \<noteq> 0"
    and s': "s' = control_checkpoint c (gt_nextXid (mirror_store c g (Some sid) p s1))
                          (mirror_store c g (Some sid) p s1)"
  shows "GTM_BkupBeginTransactionGetGXID c cid g isol ro (Some sid) s' = Inr ((), s')"
proof -
  let ?s3 = "mirror_store c g (Some sid) p s1"
  have pin: "p \<in> set (gt_open_transactions s1)" and ps: "gti_global_session_id (slot s1 p) = sid"
    using find_SomeD[OF f] by simp_all
  have pf: "p < GTM_MAX_GLOBAL_TRANSACTIONS c" "gti_in_use (slot s1 p)" "gti_handle (slot s1 p) = int p"
    using inv_open[OF inv1 pin] by simp_all
  have len: "length (gt_transactions_array s1) = GTM_MAX_GLOBAL_TRANSACTIONS c"
    using inv1 by (rule inv_length)
  have tk: "take (GTM_MAX_SESSION_ID_LEN c) sid = sid" using sid(2) by simp
  have sl: "\<And>q. slot s' q = (if q = p then (slot s1 p)\<lparr>gti_gxid := g\<rparr> else slot s1 q)"
    unfolding s' using pf(1) len ps tk by (simp add: slot_mirror_store)
  have op: "gt_open_transactions s' = gt_open_transactions s1" unfolding s' by simp
  have ln: "length (gt_transactions_array s') = GTM_MAX_GLOBAL_TRANSACTIONS c"
    unfolding s' using len by simp
  have sess: "(\<lambda>q. gti_global_session_id (slot s' q) = sid) = (\<lambda>q. gti_global_session_id (slot s1 q) = sid)"
    by (rule ext) (simp add: sl)
  have f': "find (\<lambda>q. gti_global_session_id (slot s' q) = sid) (gt_open_transactions s') = Some p"
    unfolding sess op by (rule f)
  have hp: "gti_handle (slot s' p) = int p" "gti_in_use (slot s' p)"
    using pf by (simp_all add: sl)
  have look: "GTM_GlobalSessionIDToHandle c s' (Some sid) = int p"
    using f' hp(1) by (simp add: GlobalSessionIDToHandle_short[OF sid])
  have lk: "GTM_HandleToTransactionInfo c s' (int p) = Inr (Some p)"
    using hp(2) pf(1) ln by (simp add: handle_lookup_Some)
  have b: "begin_one c cid \<lparr>rq_isolevel = isol, rq_readonly = ro,
                rq_global_sessionid = Some sid, rq_connid = - 1\<rparr> s' = Inr (int p, s')"
    using look lk by (simp add: begin_one_def Let_def)
  have nx3: "gt_nextXid ?s3 = gt_nextXid (bkup_advance g s1)" by (rule nextXid_mirror_store)
  have nx: "gt_nextXid s' = gt_nextXid ?s3" unfolding s' by simp
  have post: "gt_nextXid s' \<noteq> 0" "\<not> GlobalTransactionIdPrecedesOrEquals (gt_nextXid s') g"
    unfolding nx nx3 using adv_post[OF valid, of g] by simp_all
  have u1: "upd_slot p (\<lambda>t. t\<lparr>gti_gxid := g\<rparr>) s' = s'"
    by (rule upd_slot_same) (simp add: sl)
  have u2: "upd_slot p (\<lambda>t. t\<lparr>gti_global_session_id := take (GTM_MAX_SESSION_ID_LEN c) sid\<rparr>) s' = s'"
    by (rule upd_slot_same) (simp add: sl tk ps)
  have ms: "mirror_store c g (Some sid) p s' = s'"
    unfolding mirror_store_def Let_def using u1 u2 adv_id[OF post] by simp
  have cc: "control_checkpoint c (gt_nextXid s') s' = s'"
    unfolding nx unfolding s' by (rule checkpoint_again)
  show ?thesis
    unfolding once_unfold using b lk ms cc by simp
qed

text \<open>
  Claim C9, amended. On every table of a run whose next GXID is valid, a
  begin-with-GXID mirror call for one transaction that carries a session id, not empty
  and shorter than the session-id array of a slot, gives the same result applied twice
  as applied once: the second application finds the slot by its session id and changes
  nothing, and a call that fails fails twice.
\<close>

theorem C9_mirror_replay_with_session:
  assumes "reachable c s"
    and "sid \<noteq> []" and "length sid < GTM_MAX_SESSION_ID_LEN c"
    and "GlobalTransactionIdIsValid (gt_nextXid s)"
  shows "bkup_twice c cid g isol ro (Some sid) s =
           GTM_BkupBeginTransactionGetGXID c cid g isol ro (Some sid) s"
proof (cases "GTM_BkupBeginTransactionGetGXID c cid g isol ro (Some sid) s")
  case (Inl e)
  then show ?thesis by (simp add: bkup_twice_def)
next
  case (Inr b)
  obtain u s' where bb: "b = (u, s')" by (cases b)
  have inv: "table_inv c s" using assms(1) by (rule reachable_inv)
  let ?r = "\<lparr>rq_isolevel = isol, rq_readonly = ro,
                rq_global_sessionid = Some sid, rq_connid = - 1\<rparr>"
  from Inr bb obtain txn s1 p where b1: "begin_one c cid ?r s = Inr (txn, s1)"
    and lk: "GTM_HandleToTransactionInfo c s1 txn = Inr (Some p)"
    and s': "s' = control_checkpoint c (gt_nextXid (mirror_store c g (Some sid) p s1))
                          (mirror_store c g (Some sid) p s1)"
    unfolding once_unfold by (auto split: sum.splits option.splits)
  note le = assms(3)
  have "result_inv c (begin_one c cid ?r s)" using inv by (rule begin_one_inv)
  then have inv1: "table_inv c s1" using b1 by simp
  obtain q where q: "txn = int q"
    "find (\<lambda>q. gti_global_session_id (slot s1 q) = sid) (gt_open_transactions s1) = Some q"
    "gt_nextXid s1 = gt_nextXid s"
    using begin_one_session[OF inv assms(2) le b1] by blast
  have "p = q" using lk q(1) by (simp add: handle_lookup_Some)
  then have f: "find (\<lambda>q. gti_global_session_id (slot s1 q) = sid) (gt_open_transactions s1) = Some p"
    using q(2) by simp
  have v: "gt_nextXid s1 \<noteq> 0" using assms(4) q(3) by (simp add: GlobalTransactionIdIsValid_def)
  have "GTM_BkupBeginTransactionGetGXID c cid g isol ro (Some sid) s' = Inr ((), s')"
    using second_is_noop[OF inv1 f assms(2) le v s'] .
  then show ?thesis using Inr bb by (simp add: bkup_twice_def)
qed

theorem C9_mirror_replay_with_session_witness:
  "bkup_twice small 7 5 2 False (Some ''S1'') (GTM_InitTxnManager small) =
     GTM_BkupBeginTransactionGetGXID small 7 5 2 False (Some ''S1'') (GTM_InitTxnManager small) \<and>
   (case GTM_BkupBeginTransactionGetGXID small 7 5 2 False (Some ''S1'') (GTM_InitTxnManager small) of
      Inr (u, s') \<Rightarrow> gt_open_transactions s' = [0] \<and> gti_gxid (slot s' 0) = 5 \<and> gt_nextXid s' = 6
    | Inl e \<Rightarrow> False)"
proof -
  have a: "''S1'' \<noteq> []" "length ''S1'' < GTM_MAX_SESSION_ID_LEN small"
    "GlobalTransactionIdIsValid (gt_nextXid (GTM_InitTxnManager small))"
    by (simp_all add: small_def GTM_InitTxnManager_def GlobalTransactionIdIsValid_def)
  have e: "(case GTM_BkupBeginTransactionGetGXID small 7 5 2 False (Some ''S1'') (GTM_InitTxnManager small) of
      Inr (u, s') \<Rightarrow> gt_open_transactions s' = [0] \<and> gti_gxid (slot s' 0) = 5 \<and> gt_nextXid s' = 6
    | Inl e \<Rightarrow> False)"
    by code_simp
  show ?thesis
    using C9_mirror_replay_with_session[OF reachable_init a, of 7 5 2 False] e by simp
qed

end
